theory Spec2Isabelle
  imports Main "HOL-Library.Sublist"
begin

section \<open>JavaScript strings and values\<close>

text \<open>
  Strings of the program are modelled as \<^typ>\<open>string\<close>: lists of characters, read as
  ASCII text.  The helpers below are the string operations the orchestration
  code calls (\<^verbatim>\<open>toLowerCase\<close>, \<^verbatim>\<open>includes\<close>, \<^verbatim>\<open>trim\<close>,
  \<^verbatim>\<open>split('\n')\<close>) and the character classes of its regular expressions
  (\<^verbatim>\<open>\s\<close>, \<^verbatim>\<open>\d\<close>, \<^verbatim>\<open>[a-zA-Z0-9_]\<close>, \<^verbatim>\<open>.\<close>), on that range.
\<close>

definition charCode :: "char \<Rightarrow> nat" where
  "charCode c = of_char c"

definition isUpper :: "char \<Rightarrow> bool" where
  "isUpper c = (65 \<le> charCode c \<and> charCode c \<le> 90)"

definition isLower :: "char \<Rightarrow> bool" where
  "isLower c = (97 \<le> charCode c \<and> charCode c \<le> 122)"

definition isDigit :: "char \<Rightarrow> bool" where
  "isDigit c = (48 \<le> charCode c \<and> charCode c \<le> 57)"

text \<open>The class \<^verbatim>\<open>[a-zA-Z0-9_]\<close>.\<close>

definition isWordChar :: "char \<Rightarrow> bool" where
  "isWordChar c = (isLower c \<or> isUpper c \<or> isDigit c \<or> c = CHR ''_'')"

text \<open>The class \<^verbatim>\<open>\s\<close> (tab, line feed, vertical tab, form feed, carriage
  return, space, no-break space); \<^verbatim>\<open>trim\<close> strips the same characters.\<close>

definition isSpace :: "char \<Rightarrow> bool" where
  "isSpace c = (charCode c \<in> {9, 10, 11, 12, 13, 32, 160})"

text \<open>The dot of a regular expression matches everything but a line terminator.\<close>

definition isLineTerminator :: "char \<Rightarrow> bool" where
  "isLineTerminator c = (charCode c = 10 \<or> charCode c = 13)"

text \<open>\<^verbatim>\<open>toLowerCase\<close> on the ASCII letters.\<close>

definition toLowerChar :: "char \<Rightarrow> char" where
  "toLowerChar c =
     (case map_of (zip ''ABCDEFGHIJKLMNOPQRSTUVWXYZ'' ''abcdefghijklmnopqrstuvwxyz'') c of
        Some d \<Rightarrow> d
      | None \<Rightarrow> c)"

definition toLowerCase :: "string \<Rightarrow> string" where
  "toLowerCase s = map toLowerChar s"

fun startsWith :: "string \<Rightarrow> string \<Rightarrow> bool" where
  "startsWith s [] = True"
| "startsWith [] (k # ks) = False"
| "startsWith (c # cs) (k # ks) = (c = k \<and> startsWith cs ks)"

text \<open>\<^verbatim>\<open>s.includes(k)\<close>.\<close>

fun includesStr :: "string \<Rightarrow> string \<Rightarrow> bool" where
  "includesStr [] k = (k = [])"
| "includesStr (c # cs) k = (startsWith (c # cs) k \<or> includesStr cs k)"

definition trim :: "string \<Rightarrow> string" where
  "trim s = rev (dropWhile isSpace (rev (dropWhile isSpace s)))"

text \<open>\<^verbatim>\<open>s.split('\n')\<close>: always at least one piece.\<close>

fun splitLines :: "string \<Rightarrow> string list" where
  "splitLines [] = [[]]"
| "splitLines (c # cs) =
     (if c = CHR 0x0A then [] # splitLines cs
      else (case splitLines cs of l # ls \<Rightarrow> (c # l) # ls | [] \<Rightarrow> [[c]]))"

text \<open>
  Values that the handlers build and exchange are untyped JavaScript values
  (\<^verbatim>\<open>any\<close>); an object keeps its keys in insertion order.
\<close>

datatype jsval =
    JUndefined
  | JNull
  | JBool bool
  | JNum int
  | JStr string
  | JArr "jsval list"
  | JObj "(string \<times> jsval) list"

type_synonym action = "(string \<times> jsval) list"

text \<open>Property read \<^verbatim>\<open>obj.key\<close>: a missing key reads as \<^verbatim>\<open>undefined\<close>.\<close>

definition getProp :: "action \<Rightarrow> string \<Rightarrow> jsval" where
  "getProp a k = (case map_of a k of Some v \<Rightarrow> v | None \<Rightarrow> JUndefined)"

section \<open>Dependency resolver\<close>

text \<open>
  \<^verbatim>\<open>CodeExecutionAgent.resolveActionDependencies\<close>.  The property pattern
  \<^verbatim>\<open>/\$\{previous_result\.([a-zA-Z0-9_]+)\}/\<close> is not anchored:
  \<^verbatim>\<open>String.match\<close> returns its leftmost occurrence in the parameter.
  \<open>matchPropertyAt\<close> tries the pattern at the head of the string: the greedy
  class cannot give characters back, because the closing brace is not in the class.
\<close>

fun dropPrefix :: "string \<Rightarrow> string \<Rightarrow> string option" where
  "dropPrefix [] s = Some s"
| "dropPrefix (k # ks) [] = None"
| "dropPrefix (k # ks) (c # cs) = (if c = k then dropPrefix ks cs else None)"

definition matchPropertyAt :: "string \<Rightarrow> string option" where
  "matchPropertyAt s =
     (case dropPrefix ''${previous_result.'' s of
        None \<Rightarrow> None
      | Some rest \<Rightarrow>
          (let p = takeWhile isWordChar rest in
           if p \<noteq> [] \<and> startsWith (dropWhile isWordChar rest) ''}'' then Some p else None))"

fun matchPreviousResultProperty :: "string \<Rightarrow> string option" where
  "matchPreviousResultProperty [] = None"
| "matchPreviousResultProperty (c # cs) =
     (case matchPropertyAt (c # cs) of
        Some p \<Rightarrow> Some p
      | None \<Rightarrow> matchPreviousResultProperty cs)"

text \<open>The object literals \<^verbatim>\<open>{ resultFrom: i - 1, property: match[1] }\<close> and
  \<^verbatim>\<open>{ resultFrom: i - 1 }\<close>.\<close>

definition Reference :: "int \<Rightarrow> string option \<Rightarrow> jsval" where
  "Reference src prop =
     (case prop of
        Some p \<Rightarrow> JObj [(''resultFrom'', JNum src), (''property'', JStr p)]
      | None \<Rightarrow> JObj [(''resultFrom'', JNum src)])"

definition resolveValue :: "nat \<Rightarrow> jsval \<Rightarrow> jsval" where
  "resolveValue i v =
     (case v of
        JStr s \<Rightarrow>
          (case matchPreviousResultProperty s of
             Some p \<Rightarrow> Reference (int i - 1) (Some p)
           | None \<Rightarrow>
               if s = ''${previous_result}'' then Reference (int i - 1) None else v)
      | _ \<Rightarrow> v)"

text \<open>The inner loop \<^verbatim>\<open>for (const key in action)\<close>: every key keeps its place.\<close>

definition resolveAction :: "nat \<Rightarrow> action \<Rightarrow> action" where
  "resolveAction i a = map (\<lambda>(k, v). (k, resolveValue i v)) a"

text \<open>The outer loop starts at index 1; \<open>resolveFrom i\<close> handles the actions at
  indices \<open>i, i + 1, \<dots>\<close>.\<close>

fun resolveFrom :: "nat \<Rightarrow> action list \<Rightarrow> action list" where
  "resolveFrom i [] = []"
| "resolveFrom i (a # as) = resolveAction i a # resolveFrom (Suc i) as"

definition resolveActionDependencies :: "action list \<Rightarrow> action list" where
  "resolveActionDependencies actions =
     (case actions of [] \<Rightarrow> [] | a # as \<Rightarrow> a # resolveFrom 1 as)"






section \<open>Planner\<close>

text \<open>
  \<^verbatim>\<open>PlanStep\<close> and the persisted \<^verbatim>\<open>Task\<close> row (the columns the core reads).
  Numbers are JavaScript doubles in the program; the model uses naturals, which agree
  with them below \<open>2 ^ 53\<close>.
\<close>

record PlanStep =
  description :: string
  estimatedTimeSeconds :: "nat option"
  requiredTools :: "string list option"

datatype task_status = PENDING | PLANNING | IN_PROGRESS | RESOLVED | CLOSED | FAILED

record Task =
  taskRowId :: string
  title :: string
  taskDescription :: "string option"
  taskStatus :: task_status

text \<open>A thrown \<^verbatim>\<open>Error\<close>, carrying its message.\<close>

datatype exn = Error string

text \<open>
  The step pattern \<^verbatim>\<open>/^\s*(\d+)[.)\]]\s+(.+)$/\<close>, applied to one line.  The result is
  the pair of capture groups.  After the punctuation the greedy \<^verbatim>\<open>\s+\<close> takes the
  whole run of white space; when nothing follows that run it gives its last character
  back to \<^verbatim>\<open>(.+)\<close>, which never matches a line terminator.
\<close>

definition matchStepLine :: "string \<Rightarrow> (string \<times> string) option" where
  "matchStepLine line =
     (let l1 = dropWhile isSpace line;
          ds = takeWhile isDigit l1 in
      if ds = [] then None
      else (case dropWhile isDigit l1 of
              [] \<Rightarrow> None
            | p # rest \<Rightarrow>
                if p \<notin> set ''.)]'' then None
                else (let w = takeWhile isSpace rest; x = dropWhile isSpace rest in
                      if x \<noteq> [] then
                        (if w \<noteq> [] \<and> \<not> list_ex isLineTerminator x then Some (ds, x) else None)
                      else
                        (if 2 \<le> length w \<and> \<not> isLineTerminator (last w)
                         then Some (ds, [last w]) else None))))"

text \<open>\<^verbatim>\<open>parseInt\<close> on a run of decimal digits.\<close>

definition digitValue :: "char \<Rightarrow> nat" where
  "digitValue c = charCode c - 48"

definition parseInt :: "string \<Rightarrow> nat" where
  "parseInt ds = foldl (\<lambda>n c. 10 * n + digitValue c) 0 ds"

text \<open>
  The time pattern \<^verbatim>\<open>/(\d+)\s*(min|hour|sec|minute|second|hr)/i\<close>, leftmost match.
  The alternatives are tried in the order written.
\<close>

definition timeUnits :: "string list" where
  "timeUnits = [''min'', ''hour'', ''sec'', ''minute'', ''second'', ''hr'']"

definition matchTimeAt :: "string \<Rightarrow> (string \<times> string) option" where
  "matchTimeAt s =
     (let ds = takeWhile isDigit s;
          r = dropWhile isSpace (dropWhile isDigit s) in
      if ds = [] then None
      else (case find (\<lambda>u. startsWith (toLowerCase r) u) timeUnits of
              None \<Rightarrow> None
            | Some u \<Rightarrow> Some (ds, take (length u) r)))"

fun matchTime :: "string \<Rightarrow> (string \<times> string) option" where
  "matchTime [] = None"
| "matchTime (c # cs) =
     (case matchTimeAt (c # cs) of Some m \<Rightarrow> Some m | None \<Rightarrow> matchTime cs)"

definition toolsToCheck :: "string list" where
  "toolsToCheck =
     [''browser'', ''web'', ''search'', ''terminal'', ''shell'', ''file'', ''python'',
      ''code'', ''database'', ''sql'', ''api'', ''document'']"

text \<open>The branch of the loop body for a line that does not start a step and is not blank,
  applied to the current step.\<close>

definition appendContinuation :: "string \<Rightarrow> PlanStep \<Rightarrow> PlanStep" where
  "appendContinuation line cur =
     (let s1 = cur\<lparr>description := description cur @ '' '' @ trim line\<rparr>;
          lower = toLowerCase line;
          s2 = (if includesStr lower ''time'' \<or> includesStr lower ''duration'' then
                  (case matchTime line of
                     None \<Rightarrow> s1
                   | Some (digits, u) \<Rightarrow>
                       (let v = parseInt digits;
                            unit = toLowerCase u;
                            seconds =
                              (if startsWith unit ''min'' then v * 60
                               else if startsWith unit ''hour'' \<or> unit = ''hr'' then v * 3600
                               else v)
                        in s1\<lparr>estimatedTimeSeconds := Some seconds\<rparr>))
                else s1);
          s3 = (if includesStr lower ''tool'' \<or> includesStr lower ''resource'' then
                  (let toolsList = filter (\<lambda>tool. includesStr lower tool) toolsToCheck in
                   if toolsList \<noteq> [] then s2\<lparr>requiredTools := Some toolsList\<rparr> else s2)
                else s2)
      in s3)"

text \<open>The loop over the lines, with the variables \<^verbatim>\<open>planSteps\<close> and
  \<^verbatim>\<open>currentStep\<close> as its state.\<close>

fun parseLines :: "string list \<Rightarrow> PlanStep list \<Rightarrow> PlanStep option
                   \<Rightarrow> PlanStep list \<times> PlanStep option" where
  "parseLines [] planSteps currentStep = (planSteps, currentStep)"
| "parseLines (line # lines) planSteps currentStep =
     (case matchStepLine line of
        Some (num, body) \<Rightarrow>
          parseLines lines
            (case currentStep of Some cur \<Rightarrow> planSteps @ [cur] | None \<Rightarrow> planSteps)
            (Some \<lparr>description = trim body, estimatedTimeSeconds = None, requiredTools = None\<rparr>)
      | None \<Rightarrow>
          (case currentStep of
             Some cur \<Rightarrow>
               if trim line \<noteq> [] then parseLines lines planSteps (Some (appendContinuation line cur))
               else parseLines lines planSteps currentStep
           | None \<Rightarrow> parseLines lines planSteps currentStep))"

definition parsePlanFromLLMResponse :: "string \<Rightarrow> PlanStep list" where
  "parsePlanFromLLMResponse response =
     (case parseLines (splitLines response) [] None of
        (planSteps, Some cur) \<Rightarrow> planSteps @ [cur]
      | (planSteps, None) \<Rightarrow> planSteps)"

text \<open>\<^verbatim>\<open>a || b\<close> on an optional string: \<^verbatim>\<open>null\<close> and the empty string are falsy.\<close>

definition orElse :: "string option \<Rightarrow> string \<Rightarrow> string" where
  "orElse a b = (case a of None \<Rightarrow> b | Some s \<Rightarrow> if s = [] then b else s)"

definition joinLines :: "string list \<Rightarrow> string" where
  "joinLines ls = concat (map (\<lambda>l. l @ [CHR 0x0A]) ls)"

definition constructPlanningPrompt :: "Task \<Rightarrow> string" where
  "constructPlanningPrompt task = joinLines
     ['''',
      ''Task Planning Request:'',
      '''',
      ''I need to break down the following task into a detailed step-by-step plan:'',
      '''',
      ''Task Title: '' @ title task,
      ''Task Description: '' @ orElse (taskDescription task) ''No additional description provided'',
      '''',
      ''Please create a step-by-step plan to accomplish this task. Each step should be clear, '',
      ''actionable, and specific. The plan should cover all necessary stages from initial '',
      ''data gathering to final output/completion.'',
      '''',
      ''For each step, provide:'',
      ''1. A clear description of what needs to be done'',
      ''2. Any tools or resources that might be needed for that step'',
      ''3. An estimate of the time required (if possible)'',
      '''',
      ''Format the response as a numbered list of steps.'']"

text \<open>
  \<^verbatim>\<open>Planner.createPlan\<close>.  The text-generation collaborator
  (\<^verbatim>\<open>getLLMResponse\<close>) is a parameter: for a prompt it either throws or returns
  the response text.
\<close>

definition createPlan :: "(string \<Rightarrow> exn + string) \<Rightarrow> Task \<Rightarrow> exn + PlanStep list" where
  "createPlan getLLMResponse task =
     (case getLLMResponse (constructPlanningPrompt task) of
        Inl e \<Rightarrow> Inl e
      | Inr planText \<Rightarrow> Inr (parsePlanFromLLMResponse planText))"

text \<open>A step line as the specification words it: the line matches the pattern
  \<open><number><punct><text>\<close>.\<close>

definition isStepLine :: "string \<Rightarrow> bool" where
  "isStepLine line = (matchStepLine line \<noteq> None)"

text \<open>Two collaborators: one answers in prose without numbering, one with a numbered
  list.\<close>

definition proseCollaborator :: "string \<Rightarrow> exn + string" where
  "proseCollaborator prompt = Inr ''Sure! First gather the data, then write the report.''"

definition numberedCollaborator :: "string \<Rightarrow> exn + string" where
  "numberedCollaborator prompt =
     Inr (joinLines [''Here is the plan:'', ''1. Search the web'', ''   Time: 5 minutes'',
                     ''2) Write the report''])"

definition sampleTask :: Task where
  "sampleTask = \<lparr>taskRowId = ''t1'', title = ''Summarize'', taskDescription = None,
                  taskStatus = PENDING\<rparr>"

section \<open>Capability registry and dispatch\<close>

datatype step_status = STEP_PENDING | STEP_IN_PROGRESS | STEP_COMPLETED | STEP_FAILED

text \<open>The persisted \<^verbatim>\<open>TaskStep\<close> row; time stamps are readings of the store's clock.\<close>

record TaskStep =
  stepId :: nat
  taskId :: string
  stepNumber :: nat
  stepDescription :: string
  status :: step_status
  startedAt :: "nat option"
  completedAt :: "nat option"

text \<open>\<^verbatim>\<open>keywords.some(keyword => description.includes(keyword))\<close> on the lower-cased
  description, the body of every keyword-driven \<^verbatim>\<open>canHandleStep\<close>.\<close>

definition someKeyword :: "string list \<Rightarrow> TaskStep \<Rightarrow> bool" where
  "someKeyword keywords step =
     list_ex (\<lambda>keyword. includesStr (toLowerCase (stepDescription step)) keyword) keywords"

definition webKeywords :: "string list" where
  "webKeywords =
     [''web'', ''browse'', ''browser'', ''website'', ''url'', ''http'', ''search'',
      ''navigate'', ''visit'', ''page'', ''internet'', ''online'', ''google'',
      ''download'', ''scrape'', ''extract'']"

definition dataKeywords :: "string list" where
  "dataKeywords =
     [''data'', ''analysis'', ''analyze'', ''statistics'', ''statistical'',
      ''visualization'', ''visualize'', ''chart'', ''graph'', ''plot'',
      ''excel'', ''csv'', ''dataset'', ''pandas'', ''numpy'', ''correlation'',
      ''regression'', ''mean'', ''median'', ''average'', ''standard deviation'']"

definition documentKeywords :: "string list" where
  "documentKeywords =
     [''document'', ''file'', ''text'', ''pdf'', ''word'', ''docx'', ''excel'', ''xlsx'',
      ''read'', ''write'', ''create'', ''update'', ''merge'', ''extract'', ''convert'',
      ''report'', ''template'', ''format'', ''markdown'', ''html'', ''text'']"

definition codeKeywords :: "string list" where
  "codeKeywords =
     [''code'', ''script'', ''program'', ''function'', ''algorithm'',
      ''python'', ''javascript'', ''typescript'', ''node'', ''nodejs'',
      ''execute'', ''run'', ''compile'', ''build'', ''develop'',
      ''optimize'', ''refactor'', ''debug'', ''fix'', ''implement'']"

text \<open>A registered handler: its name and its \<^verbatim>\<open>canHandleStep\<close> predicate.  What
  \<^verbatim>\<open>executeStep\<close> does is part of the environment of the executor (below).\<close>

record agent =
  agentName :: string
  canHandleStep :: "TaskStep \<Rightarrow> bool"

definition WebBrowsingAgent :: agent where
  "WebBrowsingAgent = \<lparr>agentName = ''WebBrowsingAgent'', canHandleStep = someKeyword webKeywords\<rparr>"

definition DataAnalysisAgent :: agent where
  "DataAnalysisAgent = \<lparr>agentName = ''DataAnalysisAgent'', canHandleStep = someKeyword dataKeywords\<rparr>"

definition DocumentProcessingAgent :: agent where
  "DocumentProcessingAgent =
     \<lparr>agentName = ''DocumentProcessingAgent'', canHandleStep = someKeyword documentKeywords\<rparr>"

definition CodeExecutionAgent :: agent where
  "CodeExecutionAgent = \<lparr>agentName = ''CodeExecutionAgent'', canHandleStep = someKeyword codeKeywords\<rparr>"

definition alwaysTrue :: "TaskStep \<Rightarrow> bool" where
  "alwaysTrue step = True"

definition GeneralPurposeAgent :: agent where
  "GeneralPurposeAgent = \<lparr>agentName = ''GeneralPurposeAgent'', canHandleStep = alwaysTrue\<rparr>"

text \<open>The registry is a JavaScript \<^verbatim>\<open>Map\<close>: it iterates in insertion order, and
  setting an existing key keeps the key's position.\<close>

type_synonym registry = "(string \<times> agent) list"

definition registerAgent :: "string \<Rightarrow> agent \<Rightarrow> registry \<Rightarrow> registry" where
  "registerAgent name a reg =
     (if name \<in> set (map fst reg)
      then map (\<lambda>(n, x). if n = name then (n, a) else (n, x)) reg
      else reg @ [(name, a)])"

definition newRegistry :: registry where
  "newRegistry =
     registerAgent ''GeneralPurposeAgent'' GeneralPurposeAgent
       (registerAgent ''CodeExecutionAgent'' CodeExecutionAgent
         (registerAgent ''DocumentProcessingAgent'' DocumentProcessingAgent
           (registerAgent ''DataAnalysisAgent'' DataAnalysisAgent
             (registerAgent ''WebBrowsingAgent'' WebBrowsingAgent []))))"

text \<open>\<^verbatim>\<open>getAgent\<close>; \<open>None\<close> is \<^verbatim>\<open>undefined\<close>.\<close>

definition getAgent :: "registry \<Rightarrow> string \<Rightarrow> agent option" where
  "getAgent reg name =
     (case map_of reg name of
        None \<Rightarrow> map_of reg ''GeneralPurposeAgent''
      | Some a \<Rightarrow> Some a)"

fun selectLoop :: "registry \<Rightarrow> TaskStep \<Rightarrow> agent option" where
  "selectLoop [] step = None"
| "selectLoop ((name, a) # rest) step =
     (if name = ''GeneralPurposeAgent'' then selectLoop rest step
      else if canHandleStep a step then Some a
      else selectLoop rest step)"

definition selectAgentForStep :: "registry \<Rightarrow> TaskStep \<Rightarrow> agent option" where
  "selectAgentForStep reg step =
     (case selectLoop reg step of
        Some a \<Rightarrow> Some a
      | None \<Rightarrow> getAgent reg ''GeneralPurposeAgent'')"

text \<open>\<^verbatim>\<open>ExecutorAgent.analyzeStepForAgentSelection\<close>: the keyword cascade that the
  executor itself uses to name the handler of a step.\<close>

definition analyzeStepForAgentSelection :: "TaskStep \<Rightarrow> string" where
  "analyzeStepForAgentSelection step =
     (let description = toLowerCase (stepDescription step) in
      if includesStr description ''data'' \<or> includesStr description ''analyze''
        then ''DataAnalysisAgent''
      else if includesStr description ''web'' \<or> includesStr description ''browse''
              \<or> includesStr description ''search''
        then ''WebBrowsingAgent''
      else if includesStr description ''file'' \<or> includesStr description ''document''
        then ''DocumentProcessingAgent''
      else if includesStr description ''code'' \<or> includesStr description ''program''
        then ''CodeExecutionAgent''
      else ''GeneralPurposeAgent'')"

text \<open>The handler that \<^verbatim>\<open>executeTaskStep\<close> obtains for a step.\<close>

definition executorAgent :: "TaskStep \<Rightarrow> agent option" where
  "executorAgent step = getAgent newRegistry (analyzeStepForAgentSelection step)"

definition pendingStep :: "nat \<Rightarrow> string \<Rightarrow> nat \<Rightarrow> string \<Rightarrow> TaskStep" where
  "pendingStep sid tid n d =
     \<lparr>stepId = sid, taskId = tid, stepNumber = n, stepDescription = d,
      status = STEP_PENDING, startedAt = None, completedAt = None\<rparr>"

text \<open>Two steps used as examples.\<close>

definition visitStep :: TaskStep where
  "visitStep = pendingStep 0 ''t1'' 1 ''Visit the page''"

definition chartStep :: TaskStep where
  "chartStep = pendingStep 0 ''t1'' 1 ''Draw a chart''"

text \<open>The keywords of the executor's cascade.\<close>

definition executorKeywords :: "string list" where
  "executorKeywords =
     [''data'', ''analyze'', ''web'', ''browse'', ''search'', ''file'', ''document'',
      ''code'', ''program'']"

section \<open>Executor\<close>

text \<open>
  The persisted store.  A table is a map from the primary key to the row; step keys are
  allocated from a counter.  \<open>clock\<close> is the reading that the next \<^verbatim>\<open>new Date()\<close>
  returns.  The audit log (\<^verbatim>\<open>AgentLog\<close>) is append-only.
\<close>

record AgentLog =
  logTaskId :: string
  logStepId :: "nat option"
  level :: string
  message :: string
  agentType :: string
  details :: "string option"

record db =
  tasks :: "string \<rightharpoonup> Task"
  steps :: "nat \<rightharpoonup> TaskStep"
  logs :: "AgentLog list"
  nextId :: nat
  clock :: nat

text \<open>What a handler's \<^verbatim>\<open>executeStep\<close> returns (\<^verbatim>\<open>success\<close>, \<^verbatim>\<open>output\<close>,
  \<^verbatim>\<open>error\<close>).\<close>

record AgentExecutionResult =
  success :: bool
  resultOutput :: jsval
  resultError :: "string option"

text \<open>
  The environment of one execution: the text-generation collaborator, the outcome of
  each handler's \<^verbatim>\<open>executeStep\<close> (a thrown error or a returned result), and the
  points at which a request to cancel the task is served while the executor awaits.
  The executor awaits between any two of its store operations; the points below are the
  ones that matter for the task and step rows: while the plan is generated, after a
  status check and before the next step is started, and while a handler runs.
\<close>

datatype cancel_point = WhilePlanning | BeforeStep nat | DuringStep nat

record world =
  llm :: "string \<Rightarrow> exn + string"
  agentExecuteStep :: "string \<Rightarrow> TaskStep \<Rightarrow> exn + AgentExecutionResult"
  cancelAt :: "cancel_point \<Rightarrow> bool"

text \<open>Decimal rendering of a number in a template string.\<close>

fun showNat :: "nat \<Rightarrow> string" where
  "showNat n =
     (if n < 10 then [''0123456789'' ! n]
      else showNat (n div 10) @ [''0123456789'' ! (n mod 10)])"

declare showNat.simps [simp del]

fun statusName :: "task_status \<Rightarrow> string" where
  "statusName PENDING = ''PENDING''"
| "statusName PLANNING = ''PLANNING''"
| "statusName IN_PROGRESS = ''IN_PROGRESS''"
| "statusName RESOLVED = ''RESOLVED''"
| "statusName CLOSED = ''CLOSED''"
| "statusName FAILED = ''FAILED''"

text \<open>\<^verbatim>\<open>createAgentLog\<close>: a failure to write the log is swallowed there, so the call
  never throws.\<close>

definition createAgentLog ::
  "string \<Rightarrow> nat option \<Rightarrow> string \<Rightarrow> string \<Rightarrow> string \<Rightarrow> db \<Rightarrow> db" where
  "createAgentLog tid sid lvl msg agent d =
     d\<lparr>logs := logs d @
          [\<lparr>logTaskId = tid, logStepId = sid, level = lvl, message = msg,
            agentType = agent, details = None\<rparr>]\<rparr>"

definition logInfo :: "string \<Rightarrow> nat option \<Rightarrow> string \<Rightarrow> db \<Rightarrow> db" where
  "logInfo tid sid msg d = createAgentLog tid sid ''INFO'' msg ''ExecutorAgent'' d"

definition logError :: "string \<Rightarrow> nat option \<Rightarrow> string \<Rightarrow> db \<Rightarrow> db" where
  "logError tid sid msg d = createAgentLog tid sid ''ERROR'' msg ''ExecutorAgent'' d"

text \<open>
  Store operations.  \<^verbatim>\<open>update\<close> of a missing row is rejected by the store; no row of
  an executing task is deleted while it executes, so the model leaves the store as it is
  in that case.
\<close>

definition findTask :: "db \<Rightarrow> string \<Rightarrow> Task option" where
  "findTask d tid = tasks d tid"

definition setTaskStatus :: "string \<Rightarrow> task_status \<Rightarrow> db \<Rightarrow> db" where
  "setTaskStatus tid st d =
     (case tasks d tid of
        None \<Rightarrow> d
      | Some t \<Rightarrow> d\<lparr>tasks := (tasks d)(tid \<mapsto> t\<lparr>taskStatus := st\<rparr>)\<rparr>)"

definition updateStep :: "nat \<Rightarrow> (TaskStep \<Rightarrow> TaskStep) \<Rightarrow> db \<Rightarrow> db" where
  "updateStep sid f d =
     (case steps d sid of
        None \<Rightarrow> d
      | Some r \<Rightarrow> d\<lparr>steps := (steps d)(sid \<mapsto> f r)\<rparr>)"

text \<open>\<^verbatim>\<open>new Date()\<close>.\<close>

definition tick :: "db \<Rightarrow> db" where
  "tick d = d\<lparr>clock := Suc (clock d)\<rparr>"

text \<open>\<^verbatim>\<open>taskStep.findMany({ where: { taskId }, orderBy: { stepNumber: 'asc' } })\<close>.\<close>

definition findManySteps :: "db \<Rightarrow> string \<Rightarrow> TaskStep list" where
  "findManySteps d tid =
     sort_key stepNumber
       (filter (\<lambda>s. taskId s = tid) (List.map_filter (steps d) [0..<nextId d]))"

text \<open>\<^verbatim>\<open>taskStep.deleteMany({ where: { taskId } })\<close>.\<close>

definition deleteManySteps :: "string \<Rightarrow> db \<Rightarrow> db" where
  "deleteManySteps tid d =
     d\<lparr>steps := (\<lambda>sid. case steps d sid of
                          None \<Rightarrow> None
                        | Some r \<Rightarrow> if taskId r = tid then None else Some r)\<rparr>"

definition createStep :: "string \<Rightarrow> nat \<Rightarrow> string \<Rightarrow> db \<Rightarrow> db" where
  "createStep tid n descr d =
     d\<lparr>steps := (steps d)(nextId d \<mapsto> pendingStep (nextId d) tid n descr),
       nextId := Suc (nextId d)\<rparr>"

text \<open>
  The cancellation route \<^verbatim>\<open>POST /api/tasks/[id]/cancel\<close>, for an authorised caller:
  it refuses unless the task is \<open>PLANNING\<close> or \<open>IN_PROGRESS\<close>; otherwise it sets the
  task to \<open>FAILED\<close>, writes a log entry and fails every step of the task that is
  \<open>IN_PROGRESS\<close>.
\<close>

definition cancelTask :: "string \<Rightarrow> db \<Rightarrow> db" where
  "cancelTask tid d =
     (case findTask d tid of
        None \<Rightarrow> d
      | Some existingTask \<Rightarrow>
          if taskStatus existingTask \<noteq> PLANNING \<and> taskStatus existingTask \<noteq> IN_PROGRESS then d
          else
            (let d1 = setTaskStatus tid FAILED d;
                 d2 = createAgentLog tid None ''INFO'' ''Task was canceled by user'' ''API'' d1;
                 d3 = d2\<lparr>steps := (\<lambda>sid. case steps d2 sid of
                                       None \<Rightarrow> None
                                     | Some r \<Rightarrow>
                                         if taskId r = tid \<and> status r = STEP_IN_PROGRESS
                                         then Some (r\<lparr>status := STEP_FAILED,
                                                      completedAt := Some (clock d2)\<rparr>)
                                         else Some r)\<rparr>
             in tick d3))"

definition environment :: "world \<Rightarrow> cancel_point \<Rightarrow> string \<Rightarrow> db \<Rightarrow> db" where
  "environment w pt tid d = (if cancelAt w pt then cancelTask tid d else d)"

subsection \<open>The methods of \<^verbatim>\<open>ExecutorAgent\<close>\<close>

definition updateTaskStatus :: "string \<Rightarrow> task_status \<Rightarrow> db \<Rightarrow> db" where
  "updateTaskStatus tid st d =
     logInfo tid None (''Task status updated to '' @ statusName st) (setTaskStatus tid st d)"

definition errorMessage :: "exn \<Rightarrow> string" where
  "errorMessage e = (case e of Error m \<Rightarrow> m)"

definition handleExecutionError :: "string \<Rightarrow> exn \<Rightarrow> db \<Rightarrow> db" where
  "handleExecutionError tid e d =
     updateTaskStatus tid FAILED
       (logError tid None (''Task execution failed: '' @ errorMessage e) d)"

definition handleStepExecutionError :: "TaskStep \<Rightarrow> exn \<Rightarrow> db \<Rightarrow> db" where
  "handleStepExecutionError step e d =
     (let d1 = logError (taskId step) (Some (stepId step))
                 (''Step execution failed: '' @ errorMessage e) d
      in tick (updateStep (stepId step)
                 (\<lambda>r. r\<lparr>status := STEP_FAILED, completedAt := Some (clock d1)\<rparr>) d1))"

fun createSteps :: "string \<Rightarrow> nat \<Rightarrow> PlanStep list \<Rightarrow> db \<Rightarrow> db" where
  "createSteps tid i [] d = d"
| "createSteps tid i (p # ps) d = createSteps tid (Suc i) ps (createStep tid (i + 1) (description p) d)"

definition storePlanSteps :: "string \<Rightarrow> PlanStep list \<Rightarrow> db \<Rightarrow> db" where
  "storePlanSteps tid planSteps d =
     logInfo tid None
       (''Created execution plan with '' @ showNat (length planSteps) @ '' steps'')
       (createSteps tid 0 planSteps (deleteManySteps tid d))"

text \<open>
  \<^verbatim>\<open>executeTaskStep\<close>, in the order of its statements: the start of the step (log
  entry, row set to \<open>IN_PROGRESS\<close> with a start stamp), the handler call (the handler is
  the one named by \<open>analyzeStepForAgentSelection\<close>; its returned value is not used), and
  either the completion of the step or the \<^verbatim>\<open>catch\<close> branch, which records the
  failure and throws the error again.
\<close>

definition startStep :: "TaskStep \<Rightarrow> db \<Rightarrow> db" where
  "startStep step d =
     (let d1 = logInfo (taskId step) (Some (stepId step))
                 (''Starting execution of step '' @ showNat (stepNumber step) @ '': ''
                    @ stepDescription step) d
      in tick (updateStep (stepId step)
                 (\<lambda>r. r\<lparr>status := STEP_IN_PROGRESS, startedAt := Some (clock d1)\<rparr>) d1))"

definition handlerOutcome :: "world \<Rightarrow> TaskStep \<Rightarrow> exn + AgentExecutionResult" where
  "handlerOutcome w step =
     (case executorAgent step of
        None \<Rightarrow> Inl (Error ''Cannot read properties of undefined'')
      | Some a \<Rightarrow> agentExecuteStep w (agentName a) step)"

definition completeStep :: "TaskStep \<Rightarrow> db \<Rightarrow> db" where
  "completeStep step d =
     (let d4 = tick (updateStep (stepId step)
                 (\<lambda>r. r\<lparr>status := STEP_COMPLETED, completedAt := Some (clock d)\<rparr>) d)
      in logInfo (taskId step) (Some (stepId step))
           (''Completed step '' @ showNat (stepNumber step) @ '': '' @ stepDescription step) d4)"

definition executeTaskStep :: "world \<Rightarrow> TaskStep \<Rightarrow> db \<Rightarrow> (exn + unit) \<times> db" where
  "executeTaskStep w step d =
     (let d2 = startStep step d;
          d3 = environment w (DuringStep (stepNumber step)) (taskId step) d2
      in case handlerOutcome w step of
           Inr result \<Rightarrow> (Inr (), completeStep step d3)
         | Inl e \<Rightarrow> (Inl e, handleStepExecutionError step e d3))"

text \<open>The loop of \<^verbatim>\<open>executeTaskSteps\<close> over the rows read by \<^verbatim>\<open>findMany\<close>: the
  task row is read again after each step, and \<open>FAILED\<close> leaves the loop.\<close>

fun stepLoop :: "world \<Rightarrow> string \<Rightarrow> TaskStep list \<Rightarrow> db \<Rightarrow> (exn + unit) \<times> db" where
  "stepLoop w tid [] d = (Inr (), d)"
| "stepLoop w tid (step # rest) d =
     (case executeTaskStep w step (environment w (BeforeStep (stepNumber step)) tid d) of
        (Inl e, d') \<Rightarrow> (Inl e, d')
      | (Inr u, d') \<Rightarrow>
          (case findTask d' tid of
             None \<Rightarrow> stepLoop w tid rest d'
           | Some task \<Rightarrow>
               if taskStatus task = FAILED then (Inr (), d') else stepLoop w tid rest d'))"

definition executeTaskSteps :: "world \<Rightarrow> string \<Rightarrow> db \<Rightarrow> (exn + unit) \<times> db" where
  "executeTaskSteps w tid d = stepLoop w tid (findManySteps d tid) d"

definition executeTask :: "world \<Rightarrow> string \<Rightarrow> db \<Rightarrow> (exn + unit) \<times> db" where
  "executeTask w tid d =
     (case findTask d tid of
        None \<Rightarrow> (Inl (Error (''Task with ID '' @ tid @ '' not found'')), d)
      | Some task \<Rightarrow>
          (let d1 = updateTaskStatus tid PLANNING d;
               d2 = logInfo tid None ''Task execution started'' d1;
               d3 = environment w WhilePlanning tid d2
           in case createPlan (llm w) task of
                Inl e \<Rightarrow> (Inr (), handleExecutionError tid e d3)
              | Inr plan \<Rightarrow>
                  (let d4 = storePlanSteps tid plan d3;
                       d5 = updateTaskStatus tid IN_PROGRESS d4
                   in case executeTaskSteps w tid d5 of
                        (Inl e, d6) \<Rightarrow> (Inr (), handleExecutionError tid e d6)
                      | (Inr u, d6) \<Rightarrow>
                          (Inr (),
                           logInfo tid None ''Task execution completed successfully''
                             (updateTaskStatus tid RESOLVED d6)))))"

text \<open>Observations of the store.\<close>

definition taskStatusOf :: "db \<Rightarrow> string \<Rightarrow> task_status option" where
  "taskStatusOf d tid = map_option taskStatus (tasks d tid)"

definition stepStatuses :: "db \<Rightarrow> string \<Rightarrow> step_status list" where
  "stepStatuses d tid = map status (findManySteps d tid)"

text \<open>Example environments and an initial store holding one pending task.\<close>

definition okResult :: AgentExecutionResult where
  "okResult = \<lparr>success = True, resultOutput = JArr [], resultError = None\<rparr>"

definition failedResult :: AgentExecutionResult where
  "failedResult = \<lparr>success = False, resultOutput = JNull, resultError = Some ''Step execution failed''\<rparr>"

definition returningHandler :: "string \<Rightarrow> TaskStep \<Rightarrow> exn + AgentExecutionResult" where
  "returningHandler name step = Inr okResult"

definition reportingHandler :: "string \<Rightarrow> TaskStep \<Rightarrow> exn + AgentExecutionResult" where
  "reportingHandler name step = Inr failedResult"

definition throwingAtStep2 :: "string \<Rightarrow> TaskStep \<Rightarrow> exn + AgentExecutionResult" where
  "throwingAtStep2 name step =
     (if stepNumber step = 2 then Inl (Error ''boom'') else Inr okResult)"

definition threeStepCollaborator :: "string \<Rightarrow> exn + string" where
  "threeStepCollaborator prompt =
     Inr (joinLines [''1. Collect the input'', ''2. Process it'', ''3. Report''])"

definition never :: "cancel_point \<Rightarrow> bool" where
  "never pt = False"

definition duringStep1 :: "cancel_point \<Rightarrow> bool" where
  "duringStep1 pt = (pt = DuringStep 1)"

definition duringStep2 :: "cancel_point \<Rightarrow> bool" where
  "duringStep2 pt = (pt = DuringStep 2)"

definition beforeStep1 :: "cancel_point \<Rightarrow> bool" where
  "beforeStep1 pt = (pt = BeforeStep 1)"

definition initialDb :: db where
  "initialDb = \<lparr>tasks = [''t1'' \<mapsto> sampleTask], steps = Map.empty, logs = [], nextId = 0,
                 clock = 0\<rparr>"

text \<open>
  Notions used to state what an execution does to the step table.  \<open>keysKept\<close> relates two
  stores with the same task keys whose step rows agree on everything but status and time
  stamps.  \<open>planRows\<close>
  says that the steps of a task are exactly the \<open>N\<close> rows with keys \<open>n0, \<dots>, n0 + N - 1\<close>,
  numbered \<open>1, \<dots>, N\<close>.
\<close>

definition sameRowKeys :: "TaskStep \<Rightarrow> TaskStep \<Rightarrow> bool" where
  "sameRowKeys r r' \<longleftrightarrow>
     stepId r' = stepId r \<and> taskId r' = taskId r \<and> stepNumber r' = stepNumber r \<and>
     stepDescription r' = stepDescription r"

definition keysKept :: "db \<Rightarrow> db \<Rightarrow> bool" where
  "keysKept d d' \<longleftrightarrow>
     nextId d' = nextId d \<and> dom (tasks d') = dom (tasks d) \<and>
     (\<forall>sid. rel_option sameRowKeys (steps d sid) (steps d' sid))"

definition planRows :: "db \<Rightarrow> string \<Rightarrow> nat \<Rightarrow> nat \<Rightarrow> bool" where
  "planRows d tid n0 N \<longleftrightarrow>
     nextId d = n0 + N \<and>
     (\<forall>sid<n0. case steps d sid of None \<Rightarrow> True | Some r \<Rightarrow> taskId r \<noteq> tid) \<and>
     (\<forall>i<N. case steps d (n0 + i) of
               None \<Rightarrow> False
             | Some r \<Rightarrow> stepId r = n0 + i \<and> taskId r = tid \<and> stepNumber r = i + 1)"

text \<open>
  \<open>planRow n0 tid plan j\<close> is the row that \<open>storePlanSteps\<close> creates for entry \<open>j\<close> of the
  plan when the key counter stands at \<open>n0\<close>.  The next three notions describe an
  environment at step number \<open>n\<close>: the handler called for a step with that number returns
  a result, or throws, and no cancellation is served just before or during that step.
\<close>

definition planRow :: "nat \<Rightarrow> string \<Rightarrow> PlanStep list \<Rightarrow> nat \<Rightarrow> TaskStep" where
  "planRow n0 tid plan j = pendingStep (n0 + j) tid (j + 1) (description (plan ! j))"

definition stepReturns :: "world \<Rightarrow> nat \<Rightarrow> bool" where
  "stepReturns w n \<longleftrightarrow>
     (\<forall>name step. stepNumber step = n \<longrightarrow> (\<exists>res. agentExecuteStep w name step = Inr res))"

definition stepThrows :: "world \<Rightarrow> nat \<Rightarrow> bool" where
  "stepThrows w n \<longleftrightarrow>
     (\<forall>name step. stepNumber step = n \<longrightarrow> (\<exists>e. agentExecuteStep w name step = Inl e))"

definition quietAt :: "world \<Rightarrow> nat \<Rightarrow> bool" where
  "quietAt w n \<longleftrightarrow> \<not> cancelAt w (BeforeStep n) \<and> \<not> cancelAt w (DuringStep n)"

text \<open>The end of \<open>executeTask\<close>, after the step loop: the \<^verbatim>\<open>catch\<close> branch for a
  thrown error, the \<open>RESOLVED\<close> update otherwise.\<close>

definition finishTask :: "string \<Rightarrow> (exn + unit) \<times> db \<Rightarrow> (exn + unit) \<times> db" where
  "finishTask tid res =
     (case res of
        (Inl e, d6) \<Rightarrow> (Inr (), handleExecutionError tid e d6)
      | (Inr u, d6) \<Rightarrow>
          (Inr (),
           logInfo tid None ''Task execution completed successfully''
             (updateTaskStatus tid RESOLVED d6)))"

text \<open>Example environments: a cancellation served while step 1 or step 2 runs, one served after the
  task became \<open>IN_PROGRESS\<close> and before step 1 starts, a handler that throws at step 2, and
  handlers that catch their failure and report it in the returned result.\<close>

definition cancelledDuringStep1 :: world where
  "cancelledDuringStep1 =
     \<lparr>llm = threeStepCollaborator, agentExecuteStep = returningHandler, cancelAt = duringStep1\<rparr>"

definition cancelledDuringStep2 :: world where
  "cancelledDuringStep2 =
     \<lparr>llm = threeStepCollaborator, agentExecuteStep = returningHandler, cancelAt = duringStep2\<rparr>"

definition cancelledBeforeStep1 :: world where
  "cancelledBeforeStep1 =
     \<lparr>llm = threeStepCollaborator, agentExecuteStep = returningHandler, cancelAt = beforeStep1\<rparr>"

definition failingAtStep2 :: world where
  "failingAtStep2 =
     \<lparr>llm = threeStepCollaborator, agentExecuteStep = throwingAtStep2, cancelAt = never\<rparr>"

definition reportingFailures :: world where
  "reportingFailures =
     \<lparr>llm = threeStepCollaborator, agentExecuteStep = reportingHandler, cancelAt = never\<rparr>"

definition threeStepText :: string where
  "threeStepText = joinLines [''1. Collect the input'', ''2. Process it'', ''3. Report'']"

text \<open>The store of the example task at the moment the step loop is entered.\<close>

definition inProgressDb :: db where
  "inProgressDb =
     updateTaskStatus ''t1'' IN_PROGRESS
       (storePlanSteps ''t1'' (parsePlanFromLLMResponse threeStepText)
          (logInfo ''t1'' None ''Task execution started''
             (updateTaskStatus ''t1'' PLANNING initialDb)))"

section \<open>Capability handlers\<close>

subsection \<open>JavaScript coercions\<close>

definition dq :: string where
  "dq = [CHR 0x22]"

definition nl :: string where
  "nl = [CHR 0x0A]"

definition showInt :: "int \<Rightarrow> string" where
  "showInt i = (if i < 0 then ''-'' @ showNat (nat (- i)) else showNat (nat i))"

fun joinWith :: "string \<Rightarrow> string list \<Rightarrow> string" where
  "joinWith sep [] = []"
| "joinWith sep [x] = x"
| "joinWith sep (x # y # ys) = x @ sep @ joinWith sep (y # ys)"

text \<open>\<^verbatim>\<open>String(v)\<close>, the conversion a template string applies; inside an array
  \<^verbatim>\<open>null\<close> and \<^verbatim>\<open>undefined\<close> convert to the empty string.\<close>

fun jsToString :: "jsval \<Rightarrow> string" where
  "jsToString JUndefined = ''undefined''"
| "jsToString JNull = ''null''"
| "jsToString (JBool b) = (if b then ''true'' else ''false'')"
| "jsToString (JNum n) = showInt n"
| "jsToString (JStr s) = s"
| "jsToString (JArr xs) =
     joinWith '','' (map (\<lambda>v. if v = JNull \<or> v = JUndefined then [] else jsToString v) xs)"
| "jsToString (JObj kvs) = ''[object Object]''"

text \<open>Truthiness, as the condition of \<^verbatim>\<open>a ? b : c\<close> and of \<^verbatim>\<open>a || b\<close> reads it.\<close>

fun truthy :: "jsval \<Rightarrow> bool" where
  "truthy JUndefined = False"
| "truthy JNull = False"
| "truthy (JBool b) = b"
| "truthy (JNum n) = (n \<noteq> 0)"
| "truthy (JStr s) = (s \<noteq> [])"
| "truthy (JArr xs) = True"
| "truthy (JObj kvs) = True"

text \<open>Property read \<^verbatim>\<open>v.key\<close> on any value: it throws on \<^verbatim>\<open>null\<close> and
  \<^verbatim>\<open>undefined\<close>; a value that is not an object has no such property.\<close>

definition readProp :: "jsval \<Rightarrow> string \<Rightarrow> exn + jsval" where
  "readProp v k =
     (case v of
        JObj kvs \<Rightarrow> Inr (getProp kvs k)
      | JNull \<Rightarrow> Inl (Error (''Cannot read properties of null (reading '' @ k @ '')''))
      | JUndefined \<Rightarrow> Inl (Error (''Cannot read properties of undefined (reading '' @ k @ '')''))
      | _ \<Rightarrow> Inr JUndefined)"

subsection \<open>Tools and the audit trail of a handler\<close>

text \<open>
  A tool operation is an external call: its name and its arguments.  The environment
  answers a call with a thrown error or a returned value, and may let the answer depend
  on the calls made before.  \<^verbatim>\<open>JSON.stringify\<close> is a parameter of the environment.
\<close>

datatype call = Call string "jsval list"

record tools =
  respond :: "call list \<Rightarrow> call \<Rightarrow> exn + jsval"
  stringify :: "jsval \<Rightarrow> string"

record ToolUsage =
  usageTaskId :: string
  toolName :: string
  command :: string
  usageStartedAt :: nat
  endedAt :: "nat option"
  usageSuccess :: "bool option"
  usageOutput :: "string option"
  usageError :: "string option"

text \<open>What a handler writes while it executes a step: audit log entries and
  \<^verbatim>\<open>ToolUsage\<close> rows (a row's key is its position), and the calls it made.\<close>

record agent_store =
  auditLogs :: "AgentLog list"
  toolUsages :: "ToolUsage list"
  toolCalls :: "call list"
  time :: nat

definition callTool :: "tools \<Rightarrow> call \<Rightarrow> agent_store \<Rightarrow> (exn + jsval) \<times> agent_store" where
  "callTool env c st = (respond env (toolCalls st) c, st\<lparr>toolCalls := toolCalls st @ [c]\<rparr>)"

definition agentLog ::
  "string \<Rightarrow> string \<Rightarrow> TaskStep \<Rightarrow> string \<Rightarrow> string option \<Rightarrow> agent_store \<Rightarrow> agent_store" where
  "agentLog name lvl step msg det st =
     st\<lparr>auditLogs := auditLogs st @
           [\<lparr>logTaskId = taskId step, logStepId = Some (stepId step), level = lvl,
             message = msg, agentType = name, details = det\<rparr>]\<rparr>"

text \<open>\<^verbatim>\<open>recordToolUsageStart\<close> and \<^verbatim>\<open>recordToolUsageEnd\<close>, the same in every
  handler.\<close>

definition recordToolUsageStart ::
  "string \<Rightarrow> string \<Rightarrow> string \<Rightarrow> agent_store \<Rightarrow> nat \<times> agent_store" where
  "recordToolUsageStart tid tool cmd st =
     (length (toolUsages st),
      st\<lparr>toolUsages := toolUsages st @
            [\<lparr>usageTaskId = tid, toolName = tool, command = cmd, usageStartedAt = time st,
              endedAt = None, usageSuccess = None, usageOutput = None, usageError = None\<rparr>],
         time := Suc (time st)\<rparr>)"

definition recordToolUsageEnd ::
  "tools \<Rightarrow> nat \<Rightarrow> bool \<Rightarrow> jsval \<Rightarrow> string option \<Rightarrow> agent_store \<Rightarrow> agent_store" where
  "recordToolUsageEnd env usageId ok out err st =
     (if usageId < length (toolUsages st) then
        st\<lparr>toolUsages := (toolUsages st)
              [usageId := (toolUsages st ! usageId)
                 \<lparr>endedAt := Some (time st), usageSuccess := Some ok,
                  usageOutput := (if truthy out then Some (stringify env out) else None),
                  usageError := err\<rparr>],
           time := Suc (time st)\<rparr>
      else st)"

text \<open>
  The loop over the actions, as \<^verbatim>\<open>CodeExecutionAgent.executeStep\<close> and
  \<^verbatim>\<open>WebBrowsingAgent.executeStep\<close> both have it.  The handlers differ in their name,
  the tool name they record, the wording of the two log messages and the
  \<^verbatim>\<open>switch\<close> over the action type, which are the parameters here.  The loop body
  opens the \<^verbatim>\<open>ToolUsage\<close> row, runs the action inside \<^verbatim>\<open>try\<close>, and in the
  \<^verbatim>\<open>catch\<close> branch closes the row as failed and logs a warning.
\<close>

record runner =
  runnerName :: string
  runnerTool :: string
  startLabel :: string
  failLabel :: string
  dispatch :: "tools \<Rightarrow> action \<Rightarrow> agent_store \<Rightarrow> (exn + jsval) \<times> agent_store"

definition runAction ::
  "runner \<Rightarrow> tools \<Rightarrow> TaskStep \<Rightarrow> action \<Rightarrow> jsval list \<times> agent_store
   \<Rightarrow> jsval list \<times> agent_store" where
  "runAction r env step a acc =
     (case acc of (results, st) \<Rightarrow>
        (let typeText = jsToString (getProp a ''type'');
             st1 = agentLog (runnerName r) ''INFO'' step (startLabel r @ typeText) None st;
             (toolUsageId, st2) =
               recordToolUsageStart (taskId step) (runnerTool r) (stringify env (JObj a)) st1
         in case dispatch r env a st2 of
              (Inr result, st3) \<Rightarrow>
                (results @ [result], recordToolUsageEnd env toolUsageId True result None st3)
            | (Inl e, st3) \<Rightarrow>
                (let st4 = recordToolUsageEnd env toolUsageId False JNull
                             (Some (errorMessage e)) st3;
                     st5 = agentLog (runnerName r) ''WARNING'' step (failLabel r @ typeText)
                             (Some (stringify env (JObj [(''error'', JStr (errorMessage e))]))) st4
                 in (results, st5))))"

text \<open>The store in which the \<^verbatim>\<open>switch\<close> of an action runs: the start of the action has
  been logged and its \<^verbatim>\<open>ToolUsage\<close> row opened.\<close>

definition opened ::
  "runner \<Rightarrow> tools \<Rightarrow> TaskStep \<Rightarrow> action \<Rightarrow> agent_store \<Rightarrow> agent_store" where
  "opened r env step a st =
     snd (recordToolUsageStart (taskId step) (runnerTool r) (stringify env (JObj a))
            (agentLog (runnerName r) ''INFO'' step
               (startLabel r @ jsToString (getProp a ''type'')) None st))"

fun runActions ::
  "runner \<Rightarrow> tools \<Rightarrow> TaskStep \<Rightarrow> action list \<Rightarrow> jsval list \<times> agent_store
   \<Rightarrow> jsval list \<times> agent_store" where
  "runActions r env step [] acc = acc"
| "runActions r env step (a # as) acc = runActions r env step as (runAction r env step a acc)"

subsection \<open>The code handler: decomposition\<close>

definition detectLanguage :: "string \<Rightarrow> string" where
  "detectLanguage descr =
     (if includesStr descr ''javascript'' \<or> includesStr descr ''js'' then ''javascript''
      else if includesStr descr ''typescript'' \<or> includesStr descr ''ts''
        then ''typescript''
      else if includesStr descr ''python'' \<or> includesStr descr ''py'' then ''python''
      else if includesStr descr ''bash'' \<or> includesStr descr ''shell'' then ''bash''
      else if includesStr descr ''r'' then ''r''
      else if includesStr descr ''ruby'' \<or> includesStr descr ''rb'' then ''ruby''
      else if includesStr descr ''php'' then ''php''
      else ''python'')"

text \<open>The \<^verbatim>\<open>switch (language)\<close> that picks a file extension.\<close>

definition extensionFor :: "string \<Rightarrow> string" where
  "extensionFor language =
     (if language = ''python'' then ''py''
      else if language = ''javascript'' then ''js''
      else if language = ''typescript'' then ''ts''
      else if language = ''bash'' then ''sh''
      else if language = ''r'' then ''r''
      else if language = ''ruby'' then ''rb''
      else if language = ''php'' then ''php''
      else ''txt'')"

definition lastType :: "action list \<Rightarrow> jsval" where
  "lastType actions = getProp (last actions) ''type''"

definition helloWorld :: string where
  "helloWorld = ''print('' @ dq @ ''Hello World'' @ dq @ '')''"

text \<open>The blocks of \<^verbatim>\<open>analyzeStepForActions\<close>, one per kind of action; each takes
  the list built so far and returns it, extended or not.\<close>

definition addGenerate :: "string \<Rightarrow> TaskStep \<Rightarrow> string \<Rightarrow> action list \<Rightarrow> action list" where
  "addGenerate descr step language actions =
     (if includesStr descr ''create'' \<or> includesStr descr ''write''
         \<or> includesStr descr ''generate'' \<or> includesStr descr ''develop''
      then actions @ [[(''type'', JStr ''generate_code''),
                       (''problem'', JStr (stepDescription step)),
                       (''language'', JStr language)]]
      else actions)"

definition addExecute :: "string \<Rightarrow> string \<Rightarrow> action list \<Rightarrow> action list" where
  "addExecute descr language actions =
     (if includesStr descr ''execute'' \<or> includesStr descr ''run''
         \<or> includesStr descr ''evaluate''
      then (if actions \<noteq> [] \<and> lastType actions = JStr ''generate_code''
            then actions @ [[(''type'', JStr ''execute_code''),
                             (''code'', JStr ''${previous_result.code}''),
                             (''language'', JStr language), (''args'', JArr [])]]
            else actions @ [[(''type'', JStr ''execute_code''), (''code'', JStr helloWorld),
                             (''language'', JStr language), (''args'', JArr [])]])
      else actions)"

definition addSave :: "string \<Rightarrow> string \<Rightarrow> nat \<Rightarrow> action list \<Rightarrow> action list" where
  "addSave descr language now actions =
     (if includesStr descr ''save'' \<or> includesStr descr ''write to file''
         \<or> includesStr descr ''create file''
      then (let path = ''/tmp/manus-sandbox/code/script_'' @ showNat now @ ''.''
                         @ extensionFor language
            in if actions \<noteq> [] then
                 (if lastType actions = JStr ''generate_code''
                  then actions @ [[(''type'', JStr ''save_code''),
                                   (''code'', JStr ''${previous_result.code}''),
                                   (''path'', JStr path), (''language'', JStr language)]]
                  else if lastType actions = JStr ''execute_code''
                  then actions @ [[(''type'', JStr ''save_code''),
                                   (''code'', getProp (last actions) ''code''),
                                   (''path'', JStr path), (''language'', JStr language)]]
                  else actions)
               else actions @ [[(''type'', JStr ''save_code''),
                                (''code'', JStr (''# Generated code'' @ nl @ helloWorld)),
                                (''path'', JStr path), (''language'', JStr language)]])
      else actions)"

definition addLoad :: "string \<Rightarrow> string \<Rightarrow> action list \<Rightarrow> action list" where
  "addLoad descr language actions =
     (if includesStr descr ''load'' \<or> includesStr descr ''read file''
         \<or> includesStr descr ''open file''
      then actions @ [[(''type'', JStr ''load_code''),
                       (''path'', JStr (''/tmp/manus-sandbox/code/script.'' @ extensionFor language))]]
      else actions)"

definition optimizationCriteria :: "string \<Rightarrow> jsval" where
  "optimizationCriteria descr =
     (let criteria =
            (if includesStr descr ''performance'' \<or> includesStr descr ''speed''
             then [''performance''] else [])
            @ (if includesStr descr ''memory'' \<or> includesStr descr ''resource''
               then [''memory_usage''] else [])
            @ (if includesStr descr ''readability''
                  \<or> includesStr descr ''maintainability''
               then [''readability''] else [])
            @ (if includesStr descr ''security'' then [''security''] else [])
      in JArr (map JStr (if criteria \<noteq> [] then criteria else [''performance'', ''readability''])))"

definition addOptimize :: "string \<Rightarrow> string \<Rightarrow> action list \<Rightarrow> action list" where
  "addOptimize descr language actions =
     (if includesStr descr ''optimize'' \<or> includesStr descr ''improve''
         \<or> includesStr descr ''refactor'' \<or> includesStr descr ''clean''
      then (if actions \<noteq> [] then
              (if lastType actions = JStr ''load_code'' \<or> lastType actions = JStr ''generate_code''
               then actions @ [[(''type'', JStr ''optimize_code''),
                                (''code'', JStr ''${previous_result.code || previous_result}''),
                                (''language'', JStr language),
                                (''criteria'', optimizationCriteria descr)]]
               else actions)
            else actions @ [[(''type'', JStr ''optimize_code''),
                             (''code'', JStr (''# Code to optimize'' @ nl @ helloWorld)),
                             (''language'', JStr language),
                             (''criteria'', optimizationCriteria descr)]])
      else actions)"

definition addExplain :: "string \<Rightarrow> string \<Rightarrow> action list \<Rightarrow> action list" where
  "addExplain descr language actions =
     (if includesStr descr ''explain'' \<or> includesStr descr ''understand''
         \<or> includesStr descr ''document'' \<or> includesStr descr ''comment''
      then (if actions \<noteq> [] then
              (if lastType actions \<in> {JStr ''load_code'', JStr ''generate_code'',
                                       JStr ''optimize_code''}
               then actions @ [[(''type'', JStr ''explain_code''),
                                (''code'', JStr ''${previous_result.code || previous_result}''),
                                (''language'', JStr language)]]
               else actions)
            else actions @ [[(''type'', JStr ''explain_code''),
                             (''code'', JStr (''# Code to explain'' @ nl @ helloWorld)),
                             (''language'', JStr language)]])
      else actions)"

definition addDefault :: "TaskStep \<Rightarrow> string \<Rightarrow> action list \<Rightarrow> action list" where
  "addDefault step language actions =
     (if actions = []
      then [[(''type'', JStr ''generate_code''), (''problem'', JStr (stepDescription step)),
             (''language'', JStr language)],
            [(''type'', JStr ''execute_code''), (''code'', JStr ''${previous_result.code}''),
             (''language'', JStr language), (''args'', JArr [])]]
      else actions)"

text \<open>\<^verbatim>\<open>CodeExecutionAgent.analyzeStepForActions\<close>; \<open>now\<close> is the reading of
  \<^verbatim>\<open>Date.now()\<close> that names a saved file.\<close>

definition codeAnalyzeStepForActions :: "nat \<Rightarrow> TaskStep \<Rightarrow> action list" where
  "codeAnalyzeStepForActions now step =
     (let descr = toLowerCase (stepDescription step);
          language = detectLanguage descr;
          actions = addGenerate descr step language [];
          actions = addExecute descr language actions;
          actions = addSave descr language now actions;
          actions = addLoad descr language actions;
          actions = addOptimize descr language actions;
          actions = addExplain descr language actions;
          actions = addDefault step language actions
      in resolveActionDependencies actions)"

subsection \<open>The code handler: running the actions\<close>

text \<open>Rethrowing a caught error with a prefixed message, as every method of the handler
  does.\<close>

definition rethrow :: "string \<Rightarrow> exn \<Rightarrow> exn" where
  "rethrow label e = Error (label @ errorMessage e)"

definition generateCode ::
  "tools \<Rightarrow> jsval \<Rightarrow> jsval \<Rightarrow> agent_store \<Rightarrow> (exn + jsval) \<times> agent_store" where
  "generateCode env problem language st =
     (case callTool env (Call ''ai.generateCode'' [problem, language]) st of
        (Inl e, st1) \<Rightarrow> (Inl (rethrow ''Failed to generate code: '' e), st1)
      | (Inr code, st1) \<Rightarrow>
          (Inr (JObj [(''success'', JBool True), (''code'', code), (''language'', language)]), st1))"

text \<open>\<^verbatim>\<open>executeCode\<close>: the parameter \<^verbatim>\<open>code\<close> goes to the code execution tool
  as it is.\<close>

definition executeCode ::
  "tools \<Rightarrow> jsval \<Rightarrow> jsval \<Rightarrow> jsval \<Rightarrow> agent_store \<Rightarrow> (exn + jsval) \<times> agent_store" where
  "executeCode env code language args st =
     (let args' = (if args = JUndefined then JArr [] else args) in
      case callTool env (Call ''code.execute'' [code, language, JObj [(''args'', args')]]) st of
        (Inl e, st1) \<Rightarrow> (Inl (rethrow ''Failed to execute code: '' e), st1)
      | (Inr result, st1) \<Rightarrow>
          (case readProp result ''exitCode'' of
             Inl e \<Rightarrow> (Inl (rethrow ''Failed to execute code: '' e), st1)
           | Inr exitCode \<Rightarrow>
               (Inr (JObj [(''success'', JBool (exitCode = JNum 0)),
                           (''language'', language),
                           (''stdout'', projr (readProp result ''stdout'')),
                           (''stderr'', projr (readProp result ''stderr'')),
                           (''exitCode'', exitCode),
                           (''output'', projr (readProp result ''output'')),
                           (''duration'', projr (readProp result ''duration''))]), st1)))"

text \<open>\<^verbatim>\<open>code.length\<close> and \<^verbatim>\<open>Buffer.from(code, 'utf-8')\<close>: the latter rejects
  everything but a string or an array.\<close>

definition lengthOf :: "jsval \<Rightarrow> jsval" where
  "lengthOf v = (case v of JStr s \<Rightarrow> JNum (int (length s))
                         | JArr xs \<Rightarrow> JNum (int (length xs))
                         | _ \<Rightarrow> JUndefined)"

definition bufferable :: "jsval \<Rightarrow> bool" where
  "bufferable v = (case v of JStr s \<Rightarrow> True | JArr xs \<Rightarrow> True | _ \<Rightarrow> False)"

definition saveCode ::
  "tools \<Rightarrow> jsval \<Rightarrow> jsval \<Rightarrow> jsval \<Rightarrow> agent_store \<Rightarrow> (exn + jsval) \<times> agent_store" where
  "saveCode env code path language st =
     (if \<not> bufferable code
      then (Inl (rethrow ''Failed to save code: ''
                   (Error ''The first argument must be of type string or an instance of Buffer'')),
            st)
      else (case callTool env (Call ''filesystem.writeFile'' [path, code]) st of
              (Inl e, st1) \<Rightarrow> (Inl (rethrow ''Failed to save code: '' e), st1)
            | (Inr u, st1) \<Rightarrow>
                (Inr (JObj [(''success'', JBool True), (''path'', path),
                            (''language'', language), (''size'', lengthOf code)]), st1)))"

text \<open>\<^verbatim>\<open>path.split('.').pop()\<close>: what follows the last dot, or the whole path.\<close>

definition lastSegment :: "string \<Rightarrow> string" where
  "lastSegment path = rev (takeWhile (\<lambda>c. c \<noteq> CHR ''.'') (rev path))"

definition languageOfExtension :: "string \<Rightarrow> string" where
  "languageOfExtension ext =
     (if ext = ''py'' then ''python''
      else if ext = ''js'' then ''javascript''
      else if ext = ''ts'' then ''typescript''
      else if ext = ''sh'' \<or> ext = ''bash'' then ''bash''
      else if ext = ''r'' then ''r''
      else if ext = ''rb'' then ''ruby''
      else if ext = ''php'' then ''php''
      else ''text'')"

definition loadCode :: "tools \<Rightarrow> jsval \<Rightarrow> agent_store \<Rightarrow> (exn + jsval) \<times> agent_store" where
  "loadCode env path st =
     (case callTool env (Call ''filesystem.readFile'' [path]) st of
        (Inl e, st1) \<Rightarrow> (Inl (rethrow ''Failed to load code: '' e), st1)
      | (Inr buffer, st1) \<Rightarrow>
          (if buffer = JNull \<or> buffer = JUndefined
           then (Inl (rethrow ''Failed to load code: ''
                        (Error ''Cannot read properties of undefined (reading toString)'')), st1)
           else (case path of
                   JStr p \<Rightarrow>
                     (let code = jsToString buffer in
                      (Inr (JObj [(''success'', JBool True), (''code'', JStr code),
                                  (''language'',
                                   JStr (languageOfExtension (toLowerCase (lastSegment p)))),
                                  (''path'', path),
                                  (''size'', JNum (int (length code)))]), st1))
                 | _ \<Rightarrow>
                     (Inl (rethrow ''Failed to load code: ''
                             (Error ''path.split is not a function'')), st1))))"

definition optimizePrompt :: "string \<Rightarrow> string \<Rightarrow> string \<Rightarrow> string" where
  "optimizePrompt language criteriaStr code =
     (let goal = (if criteriaStr \<noteq> [] then criteriaStr else ''performance, readability'') in
      joinLines
        ['''',
         ''Optimize the following '' @ language @ '' code for '' @ goal @ ''.'',
         ''Provide an improved version that maintains the same functionality but is better in terms of ''
           @ goal @ ''.'',
         '''',
         ''Original code:'',
         ''```'' @ language,
         code,
         ''```'',
         '''',
         ''Please provide only the optimized code without explanations.''])"

definition optimizeCode ::
  "tools \<Rightarrow> jsval \<Rightarrow> jsval \<Rightarrow> jsval \<Rightarrow> agent_store \<Rightarrow> (exn + jsval) \<times> agent_store" where
  "optimizeCode env code language criteria st =
     (let criteria' = (if criteria = JUndefined then JArr [] else criteria) in
      case criteria' of
        JArr xs \<Rightarrow>
          (let criteriaStr =
                 joinWith '', ''
                   (map (\<lambda>v. if v = JNull \<or> v = JUndefined then [] else jsToString v) xs);
               prompt = optimizePrompt (jsToString language) criteriaStr (jsToString code)
           in case callTool env (Call ''ai.generateCode'' [JStr prompt, language]) st of
                (Inl e, st1) \<Rightarrow> (Inl (rethrow ''Failed to optimize code: '' e), st1)
              | (Inr optimizedCode, st1) \<Rightarrow>
                  (Inr (JObj [(''success'', JBool True), (''code'', optimizedCode),
                              (''language'', language), (''criteria'', criteria')]), st1))
      | _ \<Rightarrow> (Inl (rethrow ''Failed to optimize code: ''
                    (Error ''criteria.join is not a function'')), st))"

definition explainPrompt :: "string \<Rightarrow> string \<Rightarrow> string" where
  "explainPrompt language code =
     joinLines
       ['''',
        ''Explain the following '' @ language @ '' code in detail:'',
        '''',
        ''```'' @ language,
        code,
        ''```'',
        '''',
        ''Please provide:'',
        ''1. A high-level overview of what the code does'',
        ''2. Explanation of key concepts and algorithms used'',
        ''3. Line-by-line explanation of important sections'',
        ''4. Any potential issues or improvements'']"

definition explainCode ::
  "tools \<Rightarrow> jsval \<Rightarrow> jsval \<Rightarrow> agent_store \<Rightarrow> (exn + jsval) \<times> agent_store" where
  "explainCode env code language st =
     (case callTool env
             (Call ''ai.generateCode''
                [JStr (explainPrompt (jsToString language) (jsToString code)), JStr ''text'']) st of
        (Inl e, st1) \<Rightarrow> (Inl (rethrow ''Failed to explain code: '' e), st1)
      | (Inr explanation, st1) \<Rightarrow>
          (Inr (JObj [(''success'', JBool True), (''code'', code), (''language'', language),
                      (''explanation'', explanation)]), st1))"

text \<open>The \<^verbatim>\<open>switch (action.type)\<close> of \<^verbatim>\<open>CodeExecutionAgent.executeStep\<close>.  The
  parameters of the action are read from it and handed on unchanged.\<close>

definition codeDispatch :: "tools \<Rightarrow> action \<Rightarrow> agent_store \<Rightarrow> (exn + jsval) \<times> agent_store" where
  "codeDispatch env a st =
     (let ty = getProp a ''type'' in
      if ty = JStr ''generate_code''
        then generateCode env (getProp a ''problem'') (getProp a ''language'') st
      else if ty = JStr ''execute_code''
        then executeCode env (getProp a ''code'') (getProp a ''language'') (getProp a ''args'') st
      else if ty = JStr ''save_code''
        then saveCode env (getProp a ''code'') (getProp a ''path'') (getProp a ''language'') st
      else if ty = JStr ''load_code''
        then loadCode env (getProp a ''path'') st
      else if ty = JStr ''optimize_code''
        then optimizeCode env (getProp a ''code'') (getProp a ''language'')
               (getProp a ''criteria'') st
      else if ty = JStr ''explain_code''
        then explainCode env (getProp a ''code'') (getProp a ''language'') st
      else (Inl (Error (''Unknown code action type: '' @ jsToString ty)), st))"

definition codeRunner :: runner where
  "codeRunner =
     \<lparr>runnerName = ''CodeExecutionAgent'', runnerTool = ''code'',
      startLabel = ''Executing code action: '', failLabel = ''Code action failed: '',
      dispatch = codeDispatch\<rparr>"

text \<open>The body of the outer \<^verbatim>\<open>try\<close> of \<^verbatim>\<open>CodeExecutionAgent.executeStep\<close>.\<close>

definition codeStepBody ::
  "tools \<Rightarrow> TaskStep \<Rightarrow> agent_store \<Rightarrow> (exn + jsval list) \<times> agent_store" where
  "codeStepBody env step st =
     (let st0 = agentLog ''CodeExecutionAgent'' ''INFO'' step
                  (''CodeExecutionAgent executing step: '' @ stepDescription step) None st in
      case callTool env (Call ''code.initialize'' []) st0 of
        (Inl e, st1) \<Rightarrow> (Inl e, st1)
      | (Inr u, st1) \<Rightarrow>
      (case callTool env (Call ''filesystem.initialize'' []) st1 of
        (Inl e, st2) \<Rightarrow> (Inl e, st2)
      | (Inr u, st2) \<Rightarrow>
      (let codeActions = codeAnalyzeStepForActions (time st2) step;
           (results, st3) = runActions codeRunner env step codeActions ([], st2) in
       case callTool env (Call ''code.cleanup'' []) st3 of
         (Inl e, st4) \<Rightarrow> (Inl e, st4)
       | (Inr u, st4) \<Rightarrow>
       (case callTool env (Call ''filesystem.cleanup'' []) st4 of
          (Inl e, st5) \<Rightarrow> (Inl e, st5)
        | (Inr u, st5) \<Rightarrow> (Inr results, st5)))))"

text \<open>The \<^verbatim>\<open>catch\<close> branch: clean up, ignoring errors, log, and return a failure
  result.\<close>

definition reportFailure ::
  "string \<Rightarrow> string list \<Rightarrow> tools \<Rightarrow> TaskStep \<Rightarrow> exn \<Rightarrow> agent_store
   \<Rightarrow> AgentExecutionResult \<times> agent_store" where
  "reportFailure name cleanups env step e st =
     (let st1 = foldl (\<lambda>(failed, s) op.
                         if failed then (failed, s)
                         else (case callTool env (Call op []) s of
                                 (Inl x, s') \<Rightarrow> (True, s')
                               | (Inr u, s') \<Rightarrow> (False, s')))
                  (False, st) cleanups;
          st2 = agentLog name ''ERROR'' step ''Step execution failed''
                  (Some (stringify env (JObj [(''error'', JStr (errorMessage e))]))) (snd st1)
      in (\<lparr>success = False, resultOutput = JNull, resultError = Some (errorMessage e)\<rparr>, st2))"

definition codeExecuteStep ::
  "tools \<Rightarrow> TaskStep \<Rightarrow> agent_store \<Rightarrow> AgentExecutionResult \<times> agent_store" where
  "codeExecuteStep env step st =
     (case codeStepBody env step st of
        (Inr results, st') \<Rightarrow>
          (\<lparr>success = True, resultOutput = JArr results, resultError = None\<rparr>, st')
      | (Inl e, st') \<Rightarrow>
          reportFailure ''CodeExecutionAgent'' [''code.cleanup'', ''filesystem.cleanup'']
            env step e st')"

text \<open>
  An example environment: the code generator returns a one-line program, the code
  execution tool reports a clean exit, every other operation returns nothing.  The
  serialisation used for the audit rows plays no part in what the tools are called with.
\<close>

definition scriptedRespond :: "call list \<Rightarrow> call \<Rightarrow> exn + jsval" where
  "scriptedRespond history c =
     (case c of Call name args \<Rightarrow>
        if name = ''ai.generateCode'' then Inr (JStr ''print(1)'')
        else if name = ''code.execute''
          then Inr (JObj [(''exitCode'', JNum 0), (''stdout'', JStr ''1''), (''stderr'', JStr [])])
        else Inr JUndefined)"

definition scriptedTools :: tools where
  "scriptedTools = \<lparr>respond = scriptedRespond, stringify = jsToString\<rparr>"

text \<open>An environment in which the code generator is unavailable and everything else
  works as above.\<close>

definition generatorDownRespond :: "call list \<Rightarrow> call \<Rightarrow> exn + jsval" where
  "generatorDownRespond history c =
     (case c of Call name args \<Rightarrow>
        if name = ''ai.generateCode'' then Inl (Error ''unavailable'')
        else scriptedRespond history c)"

definition generatorDownTools :: tools where
  "generatorDownTools = \<lparr>respond = generatorDownRespond, stringify = jsToString\<rparr>"

definition emptyStore :: agent_store where
  "emptyStore = \<lparr>auditLogs = [], toolUsages = [], toolCalls = [], time = 0\<rparr>"

definition scriptStep :: TaskStep where
  "scriptStep = pendingStep 0 ''t1'' 1 ''Write and run a python script''"

text \<open>What the action loop does not depend on: a \<^verbatim>\<open>switch\<close> that only calls tools
  leaves the audit trail alone.\<close>

definition quietDispatch :: "runner \<Rightarrow> bool" where
  "quietDispatch r \<longleftrightarrow>
     (\<forall>env a st. toolUsages (snd (dispatch r env a st)) = toolUsages st \<and>
                auditLogs (snd (dispatch r env a st)) = auditLogs st \<and>
                time (snd (dispatch r env a st)) = time st)"

definition warnings :: "agent_store \<Rightarrow> nat" where
  "warnings st = length (filter (\<lambda>l. level l = ''WARNING'') (auditLogs st))"

subsection \<open>The lists the dependency resolver receives\<close>






subsection \<open>The web handler\<close>

text \<open>
  The URL pattern \<^verbatim>\<open>/(https?:\/\/[^\s]+)/g\<close>: all matches, left to right, without
  overlap.  \<open>matchUrlAt\<close> tries the pattern at the head of the string; \<open>urlsFrom k\<close>
  first skips the \<open>k\<close> characters that belong to the match just found.
\<close>

definition matchUrlAt :: "string \<Rightarrow> string option" where
  "matchUrlAt s =
     (case dropPrefix ''https://'' s of
        Some rest \<Rightarrow>
          (let body = takeWhile (\<lambda>c. \<not> isSpace c) rest in
           if body \<noteq> [] then Some (''https://'' @ body) else None)
      | None \<Rightarrow>
          (case dropPrefix ''http://'' s of
             Some rest \<Rightarrow>
               (let body = takeWhile (\<lambda>c. \<not> isSpace c) rest in
                if body \<noteq> [] then Some (''http://'' @ body) else None)
           | None \<Rightarrow> None))"

fun urlsFrom :: "nat \<Rightarrow> string \<Rightarrow> string list" where
  "urlsFrom k [] = []"
| "urlsFrom (Suc k) (c # cs) = urlsFrom k cs"
| "urlsFrom 0 (c # cs) =
     (case matchUrlAt (c # cs) of
        Some u \<Rightarrow> u # urlsFrom (length u - 1) cs
      | None \<Rightarrow> urlsFrom 0 cs)"

text \<open>
  \<^verbatim>\<open>extractSearchQuery\<close>, with the pattern
  \<^verbatim>\<open>/search\s+(?:for\s+)?["']?([^"']+)["']?/i\<close>.  \<open>capture\<close> is the part
  \<^verbatim>\<open>["']?([^"']+)\<close> at the head of a string.  \<open>matchSearchAfter\<close> takes the text
  that follows the word \<^verbatim>\<open>search\<close> and returns the capture group, following the
  order in which the matcher gives up its greedy choices: the optional quote, the white
  space inside the optional group, the group itself, the white space before it.
\<close>

definition isQuote :: "char \<Rightarrow> bool" where
  "isQuote c = (c = CHR 0x22 \<or> c = CHR 0x27)"

definition nonQuotePrefix :: "string \<Rightarrow> string" where
  "nonQuotePrefix s = takeWhile (\<lambda>c. \<not> isQuote c) s"

definition capture :: "string \<Rightarrow> string option" where
  "capture x =
     (case x of
        [] \<Rightarrow> None
      | c # cs \<Rightarrow>
          if isQuote c
          then (if nonQuotePrefix cs \<noteq> [] then Some (nonQuotePrefix cs) else None)
          else Some (nonQuotePrefix x))"

definition matchSearchAfter :: "string \<Rightarrow> string option" where
  "matchSearchAfter r =
     (let w = takeWhile isSpace r; r1 = dropWhile isSpace r in
      if w = [] then None
      else
        (let w2 = takeWhile isSpace (drop 3 r1); r2 = dropWhile isSpace (drop 3 r1) in
         if startsWith (toLowerCase r1) ''for'' \<and> w2 \<noteq> [] then
           (case capture r2 of
              Some n \<Rightarrow> Some n
            | None \<Rightarrow>
                if 2 \<le> length w2 then Some (last w2 # nonQuotePrefix r2)
                else Some (nonQuotePrefix r1))
         else
           (case capture r1 of
              Some n \<Rightarrow> Some n
            | None \<Rightarrow>
                if 2 \<le> length w then Some (last w # nonQuotePrefix r1) else None)))"

fun extractSearchQuery :: "string \<Rightarrow> string option" where
  "extractSearchQuery [] = None"
| "extractSearchQuery (c # cs) =
     (case (if startsWith (toLowerCase (c # cs)) ''search''
            then matchSearchAfter (drop 6 (c # cs)) else None) of
        Some n \<Rightarrow> Some (trim n)
      | None \<Rightarrow> extractSearchQuery cs)"

text \<open>
  \<^verbatim>\<open>extractTopic\<close>.  \<open>wordsOf\<close> gives the maximal runs without white space; the
  \<^verbatim>\<open>split(/\s+/)\<close> of the source can also give an empty string at either end,
  which its length filter drops.
\<close>

definition stopwords :: "string list" where
  "stopwords = [''the'', ''and'', ''a'', ''an'', ''in'', ''on'', ''at'', ''to'', ''for'',
                ''with'', ''about'']"

fun wordsOf :: "string \<Rightarrow> string list" where
  "wordsOf [] = []"
| "wordsOf (c # cs) =
     (if isSpace c then wordsOf cs
      else (case cs of
              [] \<Rightarrow> [[c]]
            | d # ds \<Rightarrow>
                if isSpace d then [c] # wordsOf cs
                else (case wordsOf cs of w # ws \<Rightarrow> (c # w) # ws | [] \<Rightarrow> [[c]])))"

definition extractTopic :: "string \<Rightarrow> string option" where
  "extractTopic descr =
     (let cleaned = map (\<lambda>c. if isWordChar c \<or> isSpace c then c else CHR '' '') descr;
          ws = filter (\<lambda>word. toLowerCase word \<notin> set stopwords \<and> 2 < length word)
                 (wordsOf cleaned)
      in if ws \<noteq> [] then Some (joinWith '' '' (take (min 5 (length ws)) ws)) else None)"

text \<open>\<^verbatim>\<open>WebBrowsingAgent.analyzeStepToActions\<close>.\<close>

definition webAnalyzeStepToActions :: "TaskStep \<Rightarrow> action list" where
  "webAnalyzeStepToActions step =
     (let descr = toLowerCase (stepDescription step);
          urls = urlsFrom 0 descr;
          actions =
            (if urls \<noteq> [] then map (\<lambda>url. [(''type'', JStr ''navigate''), (''url'', JStr url)]) urls
             else if includesStr descr ''search'' then
               (case extractSearchQuery descr of
                  Some searchTerms \<Rightarrow>
                    if searchTerms \<noteq> []
                    then [[(''type'', JStr ''search''), (''query'', JStr searchTerms)]] else []
                | None \<Rightarrow> [])
             else []);
          actions =
            (if includesStr descr ''extract'' \<or> includesStr descr ''get''
                \<or> includesStr descr ''scrape''
             then actions @ [[(''type'', JStr ''extract''), (''selector'', JStr ''body'')]]
             else actions)
      in if actions = [] then
           (case extractTopic descr of
              Some searchTerms \<Rightarrow>
                if searchTerms \<noteq> []
                then [[(''type'', JStr ''search''), (''query'', JStr searchTerms)]]
                else [[(''type'', JStr ''screenshot'')]]
            | None \<Rightarrow> [[(''type'', JStr ''screenshot'')]])
         else actions)"

text \<open>The \<^verbatim>\<open>switch (action.type)\<close> of \<^verbatim>\<open>WebBrowsingAgent.executeStep\<close>.\<close>

definition webDispatch :: "tools \<Rightarrow> action \<Rightarrow> agent_store \<Rightarrow> (exn + jsval) \<times> agent_store" where
  "webDispatch env a st =
     (let ty = getProp a ''type'' in
      if ty = JStr ''navigate'' then callTool env (Call ''browser.navigate'' [getProp a ''url'']) st
      else if ty = JStr ''search''
        then callTool env (Call ''browser.search'' [getProp a ''query'']) st
      else if ty = JStr ''extract''
        then callTool env (Call ''browser.extractContent'' [getProp a ''selector'']) st
      else if ty = JStr ''click''
        then callTool env (Call ''browser.click'' [getProp a ''selector'']) st
      else if ty = JStr ''fill''
        then callTool env
               (Call ''browser.fillForm'' [getProp a ''selector'', getProp a ''value'']) st
      else if ty = JStr ''screenshot'' then callTool env (Call ''browser.takeScreenshot'' []) st
      else (Inl (Error (''Unknown browser action type: '' @ jsToString ty)), st))"

definition webRunner :: runner where
  "webRunner =
     \<lparr>runnerName = ''WebBrowsingAgent'', runnerTool = ''browser'',
      startLabel = ''Executing web action: '', failLabel = ''Web action failed: '',
      dispatch = webDispatch\<rparr>"

definition webStepBody ::
  "tools \<Rightarrow> TaskStep \<Rightarrow> agent_store \<Rightarrow> (exn + jsval list) \<times> agent_store" where
  "webStepBody env step st =
     (let st0 = agentLog ''WebBrowsingAgent'' ''INFO'' step
                  (''WebBrowsingAgent executing step: '' @ stepDescription step) None st;
          actions = webAnalyzeStepToActions step in
      case callTool env (Call ''browser.initialize'' []) st0 of
        (Inl e, st1) \<Rightarrow> (Inl e, st1)
      | (Inr u, st1) \<Rightarrow>
      (let (results, st2) = runActions webRunner env step actions ([], st1) in
       case callTool env (Call ''browser.close'' []) st2 of
         (Inl e, st3) \<Rightarrow> (Inl e, st3)
       | (Inr u, st3) \<Rightarrow> (Inr results, st3)))"

definition webExecuteStep ::
  "tools \<Rightarrow> TaskStep \<Rightarrow> agent_store \<Rightarrow> AgentExecutionResult \<times> agent_store" where
  "webExecuteStep env step st =
     (case webStepBody env step st of
        (Inr results, st') \<Rightarrow>
          (\<lparr>success = True, resultOutput = JArr results, resultError = None\<rparr>, st')
      | (Inl e, st') \<Rightarrow> reportFailure ''WebBrowsingAgent'' [''browser.close''] env step e st')"

subsection \<open>The general-purpose handler: decomposition\<close>

text \<open>
  \<^verbatim>\<open>GeneralPurposeAgent.analyzeStepForActions\<close> asks the text-generation
  collaborator for a JSON array of actions.  \<^verbatim>\<open>JSON.parse\<close> is a parameter: it
  returns \<open>None\<close> where the built-in throws.  The options of the request are the
  temperature (0.2, in tenths) and the system instruction.
\<close>

record LLMOptions =
  temperatureTenths :: nat
  systemPrompt :: string

definition analysisPrompt :: "string \<Rightarrow> string" where
  "analysisPrompt descr = joinLines
       [
        '''',
        ''Task Analysis Request:'',
        '''',
        ''I need to analyze the following task step to determine the best tools and actions to use:'',
        '''',
        ''Step Description: '' @ descr,
        '''',
        ''Available tools:'',
        ''1. browser - For web browsing, information retrieval, and web automation'',
        ''2. code - For code generation, execution, and analysis'',
        ''3. filesystem - For file operations and document management'',
        ''4. shell - For executing shell commands and system operations'',
        '''',
        ''Please analyze this step and provide a JSON array of actions to take, where each action includes:'',
        ''- '' @ dq @ ''type'' @ dq @ '': The type of action to perform (e.g., '' @ dq @ ''search'' @ dq @ '', '' @ dq @ ''navigate'' @ dq @ '', '' @ dq @ ''execute_code'' @ dq @ '', '' @ dq @ ''read_file'' @ dq @ '')'',
        ''- '' @ dq @ ''tool'' @ dq @ '': The tool to use (one of: '' @ dq @ ''browser'' @ dq @ '', '' @ dq @ ''code'' @ dq @ '', '' @ dq @ ''filesystem'' @ dq @ '', '' @ dq @ ''shell'' @ dq @ '')'',
        ''- '' @ dq @ ''parameters'' @ dq @ '': An object with parameters specific to the action type'',
        '''',
        ''Example output format:'',
        ''['',
        ''  {'',
        ''    '' @ dq @ ''type'' @ dq @ '': '' @ dq @ ''search'' @ dq @ '','',
        ''    '' @ dq @ ''tool'' @ dq @ '': '' @ dq @ ''browser'' @ dq @ '','',
        ''    '' @ dq @ ''parameters'' @ dq @ '': {'',
        ''      '' @ dq @ ''query'' @ dq @ '': '' @ dq @ ''latest research on climate change'' @ dq,
        ''    }'',
        ''  },'',
        ''  {'',
        ''    '' @ dq @ ''type'' @ dq @ '': '' @ dq @ ''generate_code'' @ dq @ '','',
        ''    '' @ dq @ ''tool'' @ dq @ '': '' @ dq @ ''code'' @ dq @ '','',
        ''    '' @ dq @ ''parameters'' @ dq @ '': {'',
        ''      '' @ dq @ ''language'' @ dq @ '': '' @ dq @ ''python'' @ dq @ '','',
        ''      '' @ dq @ ''problem'' @ dq @ '': '' @ dq @ ''Parse and summarize the search results'' @ dq,
        ''    }'',
        ''  }'',
        '']'',
        '''',
        ''Please provide 1-3 actions that would be most effective for completing this step.'']"

definition analysisOptions :: LLMOptions where
  "analysisOptions =
     \<lparr>temperatureTenths = 2,
      systemPrompt = ''You are a helpful AI task analyzer. You only respond with valid JSON, no explanations.''\<rparr>"

text \<open>The pattern \<^verbatim>\<open>/\[[\s\S]*\]/\<close>: from the first opening bracket to the last
  closing bracket after it.\<close>

definition bracketMatch :: "string \<Rightarrow> string option" where
  "bracketMatch response =
     (let r = dropWhile (\<lambda>c. c \<noteq> CHR ''['') response in
      case r of
        [] \<Rightarrow> None
      | c # cs \<Rightarrow>
          if CHR '']'' \<in> set cs
          then Some (c # rev (dropWhile (\<lambda>x. x \<noteq> CHR '']'') (rev cs)))
          else None)"

text \<open>The two default actions: the one returned when no array can be parsed from the
  response, and the one returned when the request itself fails.\<close>

definition defaultScript :: "string \<Rightarrow> string" where
  "defaultScript descr = joinLines
       [
        '''',
        ''# Simple script to handle the task'',
        ''import json'',
        '''',
        ''def process_task():'',
        ''    task_description = '' @ dq @ dq @ dq @ descr @ dq @ dq @ dq,
        ''    print(f'' @ dq @ ''Processing task: {task_description}'' @ dq @ '')'',
        ''    '',
        ''    # Basic analysis'',
        ''    words = task_description.lower().split()'',
        ''    word_count = len(words)'',
        ''    '',
        ''    result = {'',
        ''        '' @ dq @ ''task_analysis'' @ dq @ '': {'',
        ''            '' @ dq @ ''word_count'' @ dq @ '': word_count,'',
        ''            '' @ dq @ ''contains_web_request'' @ dq @ '': any(w in words for w in ['' @ dq @ ''web'' @ dq @ '', '' @ dq @ ''browse'' @ dq @ '', '' @ dq @ ''search'' @ dq @ '', '' @ dq @ ''internet'' @ dq @ '', '' @ dq @ ''online'' @ dq @ '']),'',
        ''            '' @ dq @ ''contains_code_request'' @ dq @ '': any(w in words for w in ['' @ dq @ ''code'' @ dq @ '', '' @ dq @ ''program'' @ dq @ '', '' @ dq @ ''script'' @ dq @ '', '' @ dq @ ''function'' @ dq @ '', '' @ dq @ ''algorithm'' @ dq @ '']),'',
        ''            '' @ dq @ ''contains_file_request'' @ dq @ '': any(w in words for w in ['' @ dq @ ''file'' @ dq @ '', '' @ dq @ ''document'' @ dq @ '', '' @ dq @ ''read'' @ dq @ '', '' @ dq @ ''write'' @ dq @ '', '' @ dq @ ''save'' @ dq @ '']),'',
        ''            '' @ dq @ ''contains_shell_request'' @ dq @ '': any(w in words for w in ['' @ dq @ ''command'' @ dq @ '', '' @ dq @ ''shell'' @ dq @ '', '' @ dq @ ''execute'' @ dq @ '', '' @ dq @ ''run'' @ dq @ '', '' @ dq @ ''system'' @ dq @ ''])'',
        ''        },'',
        ''        '' @ dq @ ''conclusion'' @ dq @ '': '' @ dq @ ''Task requires general processing'' @ dq @ '','',
        ''        '' @ dq @ ''response'' @ dq @ '': f'' @ dq @ ''Completed analysis of the task: {task_description[:50]}...'' @ dq,
        ''    }'',
        ''    '',
        ''    print(json.dumps(result, indent=2))'',
        ''    return result'',
        '''',
        ''process_task()''] @ ''              ''"

definition parseFailureDefault :: "TaskStep \<Rightarrow> jsval" where
  "parseFailureDefault step =
     JObj [(''type'', JStr ''execute_code''), (''tool'', JStr ''code''),
           (''parameters'',
            JObj [(''language'', JStr ''python''),
                  (''code'', JStr (defaultScript (stepDescription step)))])]"

text \<open>\<^verbatim>\<open>s.replace(/"/g, '\\"')\<close>: a backslash before every double quote.\<close>

definition escapeQuotes :: "string \<Rightarrow> string" where
  "escapeQuotes s = concat (map (\<lambda>c. if c = CHR 0x22 then [CHR 0x5C, CHR 0x22] else [c]) s)"

definition requestFailureDefault :: "TaskStep \<Rightarrow> jsval" where
  "requestFailureDefault step =
     JObj [(''type'', JStr ''execute_code''), (''tool'', JStr ''code''),
           (''parameters'',
            JObj [(''language'', JStr ''python''),
                  (''code'',
                   JStr (''print('' @ dq @ ''Processing task: ''
                           @ escapeQuotes (stepDescription step) @ dq @ '')''))])]"

definition generalAnalyzeStepForActions ::
  "(string \<Rightarrow> LLMOptions \<Rightarrow> exn + string) \<Rightarrow> (string \<Rightarrow> jsval option) \<Rightarrow> TaskStep
   \<Rightarrow> jsval list" where
  "generalAnalyzeStepForActions getLLMResponse JSON_parse step =
     (case getLLMResponse (analysisPrompt (stepDescription step)) analysisOptions of
        Inl e \<Rightarrow> [requestFailureDefault step]
      | Inr response \<Rightarrow>
          (case JSON_parse response of
             Some (JArr parsedActions) \<Rightarrow> parsedActions
           | _ \<Rightarrow>
               (case bracketMatch response of
                  None \<Rightarrow> [parseFailureDefault step]
                | Some jsonMatch \<Rightarrow>
                    (case JSON_parse jsonMatch of
                       Some (JArr extractedJson) \<Rightarrow> extractedJson
                     | _ \<Rightarrow> [parseFailureDefault step]))))"

text \<open>An environment in which the collaborator answers with the empty JSON array, and a
  reading of \<^verbatim>\<open>JSON.parse\<close> on that text.\<close>

definition emptyArrayCollaborator :: "string \<Rightarrow> LLMOptions \<Rightarrow> exn + string" where
  "emptyArrayCollaborator prompt options = Inr ''[]''"

definition parseEmptyArray :: "string \<Rightarrow> jsval option" where
  "parseEmptyArray s = (if s = ''[]'' then Some (JArr []) else None)"

definition otherStep :: TaskStep where
  "otherStep = pendingStep 0 ''t1'' 1 ''Think about the result''"

section \<open>Properties of the dependency resolver\<close>










lemma length_resolveFrom: "length (resolveFrom i as) = length as"
  by (induction as arbitrary: i) auto


lemma length_resolveActionDependencies:
  "length (resolveActionDependencies actions) = length actions"
  by (cases actions) (auto simp: resolveActionDependencies_def length_resolveFrom)




lemma resolveValue_embedded:
  "matchPreviousResultProperty s = Some p \<Longrightarrow>
   resolveValue i (JStr s) = Reference (int i - 1) (Some p)"
  by (simp add: resolveValue_def)


section \<open>Properties of the planner\<close>

lemma parseLines_count:
  "(case parseLines ls ps cur of (ps', cur') \<Rightarrow>
      length ps' + (if cur' = None then 0 else 1)) =
   length ps + (if cur = None then 0 else 1) + length (filter isStepLine ls)"
proof (induction ls arbitrary: ps cur)
  case Nil
  then show ?case by simp
next
  case (Cons l ls)
  show ?case
  proof (cases "matchStepLine l")
    case None
    then show ?thesis
      using Cons.IH[of ps cur] Cons.IH[of ps "Some (appendContinuation l (the cur))"]
      by (cases cur) (auto simp: isStepLine_def)
  next
    case (Some m)
    obtain num body where m: "m = (num, body)" by (cases m)
    show ?thesis
      using Some m
        Cons.IH[of "case cur of Some c \<Rightarrow> ps @ [c] | None \<Rightarrow> ps"
                   "Some \<lparr>description = trim body, estimatedTimeSeconds = None,
                          requiredTools = None\<rparr>"]
      by (cases cur) (auto simp: isStepLine_def)
  qed
qed

lemma length_parsePlanFromLLMResponse:
  "length (parsePlanFromLLMResponse response) = length (filter isStepLine (splitLines response))"
proof -
  obtain ps' cur' where r: "parseLines (splitLines response) [] None = (ps', cur')"
    by (cases "parseLines (splitLines response) [] None")
  from parseLines_count[of "splitLines response" "[]" None] r
  have "length ps' + (if cur' = None then 0 else 1) = length (filter isStepLine (splitLines response))"
    by simp
  then show ?thesis
    by (cases cur') (simp_all add: parsePlanFromLLMResponse_def r)
qed

text \<open>
  Claim C3, as the code has it.  When the collaborator returns a text, \<open>createPlan\<close>
  returns a plan and does not fail; the plan has exactly one step for every line of the
  response that matches the numbered-step pattern.  So the plan is empty exactly when
  no line matches: the planner has no fallback step.
\<close>

theorem createPlan_one_step_per_numbered_line:
  "getLLMResponse (constructPlanningPrompt task) = Inr planText \<Longrightarrow>
   (\<exists>plan. createPlan getLLMResponse task = Inr plan \<and>
           length plan = length (filter isStepLine (splitLines planText)) \<and>
           (plan = [] \<longleftrightarrow> \<not> list_ex isStepLine (splitLines planText)))"
proof -
  assume r: "getLLMResponse (constructPlanningPrompt task) = Inr planText"
  let ?plan = "parsePlanFromLLMResponse planText"
  have "createPlan getLLMResponse task = Inr ?plan"
    by (simp add: createPlan_def r)
  moreover have len: "length ?plan = length (filter isStepLine (splitLines planText))"
    by (rule length_parsePlanFromLLMResponse)
  moreover have "?plan = [] \<longleftrightarrow> \<not> list_ex isStepLine (splitLines planText)"
  proof -
    have "?plan = [] \<longleftrightarrow> filter isStepLine (splitLines planText) = []"
      using len by (metis length_0_conv)
    then show ?thesis by (simp add: list_ex_iff filter_empty_conv)
  qed
  ultimately show ?thesis by blast
qed

lemma numberedCollaborator_lines:
  "filter isStepLine
     (splitLines (joinLines [''Here is the plan:'', ''1. Search the web'',
                             ''   Time: 5 minutes'', ''2) Write the report'']))
   = [''1. Search the web'', ''2) Write the report'']"
  by (simp add: joinLines_def isStepLine_def matchStepLine_def isSpace_def isDigit_def
      isLineTerminator_def charCode_def Let_def)

text \<open>A numbered response of two steps gives a plan of two steps.\<close>

theorem createPlan_one_step_per_numbered_line_witness:
  "numberedCollaborator (constructPlanningPrompt sampleTask)
     = Inr (joinLines [''Here is the plan:'', ''1. Search the web'', ''   Time: 5 minutes'',
                       ''2) Write the report'']) \<and>
   (\<exists>plan. createPlan numberedCollaborator sampleTask = Inr plan \<and> length plan = 2)"
proof -
  have h: "numberedCollaborator (constructPlanningPrompt sampleTask)
     = Inr (joinLines [''Here is the plan:'', ''1. Search the web'', ''   Time: 5 minutes'',
                       ''2) Write the report''])"
    by (simp add: numberedCollaborator_def)
  show ?thesis
    using createPlan_one_step_per_numbered_line
            [of numberedCollaborator sampleTask
                "joinLines [''Here is the plan:'', ''1. Search the web'', ''   Time: 5 minutes'',
                            ''2) Write the report'']", OF h] h
    by (auto simp: numberedCollaborator_lines)
qed

text \<open>
  Claim C3 as stated says that the plan is never empty.  For a response in prose, without
  a numbered line, \<open>createPlan\<close> returns the empty plan.
\<close>

theorem createPlan_prose_gives_empty_plan:
  "createPlan proseCollaborator sampleTask = Inr []"
  by (simp add: createPlan_def proseCollaborator_def parsePlanFromLLMResponse_def
      matchStepLine_def isSpace_def isDigit_def charCode_def Let_def)

section \<open>Properties of handler selection\<close>

lemma selectLoop_find:
  "selectLoop reg step =
     map_option snd (find (\<lambda>e. fst e \<noteq> ''GeneralPurposeAgent'' \<and> canHandleStep (snd e) step) reg)"
  by (induction reg step rule: selectLoop.induct) simp_all

lemma selectAgentForStep_first_match:
  assumes "i < length reg"
    and "fst (reg ! i) \<noteq> ''GeneralPurposeAgent''"
    and "canHandleStep (snd (reg ! i)) step"
    and "\<forall>j<i. fst (reg ! j) = ''GeneralPurposeAgent'' \<or> \<not> canHandleStep (snd (reg ! j)) step"
  shows "selectAgentForStep reg step = Some (snd (reg ! i))"
proof -
  let ?P = "\<lambda>e. fst e \<noteq> ''GeneralPurposeAgent'' \<and> canHandleStep (snd e) step"
  have "find ?P reg = Some (reg ! i)"
    unfolding find_Some_iff using assms by blast
  then show ?thesis
    by (simp add: selectAgentForStep_def selectLoop_find)
qed

lemma selectAgentForStep_fallback:
  assumes "\<forall>i<length reg. fst (reg ! i) = ''GeneralPurposeAgent'' \<or> \<not> canHandleStep (snd (reg ! i)) step"
  shows "selectAgentForStep reg step = getAgent reg ''GeneralPurposeAgent''"
proof -
  let ?P = "\<lambda>e. fst e \<noteq> ''GeneralPurposeAgent'' \<and> canHandleStep (snd e) step"
  have "find ?P reg = None"
    unfolding find_None_iff using assms by (metis in_set_conv_nth)
  then show ?thesis
    by (simp add: selectAgentForStep_def selectLoop_find)
qed

lemma newRegistry_eq:
  "newRegistry =
     [(''WebBrowsingAgent'', WebBrowsingAgent), (''DataAnalysisAgent'', DataAnalysisAgent),
      (''DocumentProcessingAgent'', DocumentProcessingAgent),
      (''CodeExecutionAgent'', CodeExecutionAgent),
      (''GeneralPurposeAgent'', GeneralPurposeAgent)]"
  by (simp add: newRegistry_def registerAgent_def)

lemma analyzeStepForAgentSelection_names:
  "analyzeStepForAgentSelection step \<in>
     {''DataAnalysisAgent'', ''WebBrowsingAgent'', ''DocumentProcessingAgent'',
      ''CodeExecutionAgent'', ''GeneralPurposeAgent''}"
  by (simp add: analyzeStepForAgentSelection_def Let_def)

lemma executorAgent_name:
  "map_option agentName (executorAgent step) = Some (analyzeStepForAgentSelection step)"
proof -
  have "map_option agentName (getAgent newRegistry n) = Some n"
    if "n \<in> {''DataAnalysisAgent'', ''WebBrowsingAgent'', ''DocumentProcessingAgent'',
             ''CodeExecutionAgent'', ''GeneralPurposeAgent''}" for n
    using that
    by (auto simp: getAgent_def newRegistry_eq WebBrowsingAgent_def DataAnalysisAgent_def
        DocumentProcessingAgent_def CodeExecutionAgent_def GeneralPurposeAgent_def)
  then show ?thesis
    unfolding executorAgent_def using analyzeStepForAgentSelection_names by blast
qed

lemma analyzeStepForAgentSelection_fallback_iff:
  "analyzeStepForAgentSelection step = ''GeneralPurposeAgent'' \<longleftrightarrow>
   \<not> list_ex (includesStr (toLowerCase (stepDescription step))) executorKeywords"
  by (simp add: analyzeStepForAgentSelection_def executorKeywords_def Let_def)

text \<open>
  Claim C8, as the code has it.  The registry's \<open>selectAgentForStep\<close> is first-match-wins
  over \<open>canHandleStep\<close> in registration order, skipping the fallback handler, and returns
  the fallback handler when no other handler matches.  The executor does not call it:
  the handler it uses for a step is the one named by its own keyword cascade over the
  lower-cased description, and it is the fallback handler exactly when none of the
  cascade's nine keywords occurs in the description.
\<close>

theorem executor_dispatch_by_keyword_cascade:
  "(\<forall>i<length reg.
      fst (reg ! i) \<noteq> ''GeneralPurposeAgent'' \<and> canHandleStep (snd (reg ! i)) step \<and>
      (\<forall>j<i. fst (reg ! j) = ''GeneralPurposeAgent'' \<or> \<not> canHandleStep (snd (reg ! j)) step)
      \<longrightarrow> selectAgentForStep reg step = Some (snd (reg ! i))) \<and>
   ((\<forall>i<length reg. fst (reg ! i) = ''GeneralPurposeAgent'' \<or> \<not> canHandleStep (snd (reg ! i)) step)
      \<longrightarrow> selectAgentForStep reg step = getAgent reg ''GeneralPurposeAgent'') \<and>
   map_option agentName (executorAgent step) = Some (analyzeStepForAgentSelection step) \<and>
   (map_option agentName (executorAgent step) = Some ''GeneralPurposeAgent'' \<longleftrightarrow>
      \<not> list_ex (includesStr (toLowerCase (stepDescription step))) executorKeywords)"
  using selectAgentForStep_first_match[of _ reg step] selectAgentForStep_fallback[of reg step]
    executorAgent_name[of step] analyzeStepForAgentSelection_fallback_iff[of step]
  by auto

lemma chartStep_facts:
  "\<not> canHandleStep (snd (newRegistry ! 0)) chartStep"
  "canHandleStep (snd (newRegistry ! 1)) chartStep"
  "\<not> list_ex (includesStr (toLowerCase (stepDescription chartStep))) executorKeywords"
  by (simp_all add: newRegistry_eq WebBrowsingAgent_def DataAnalysisAgent_def someKeyword_def
      webKeywords_def dataKeywords_def chartStep_def pendingStep_def toLowerCase_def
      toLowerChar_def executorKeywords_def)

text \<open>For the step \<open>Draw a chart\<close> the registry would select the data-analysis handler,
  the second in registration order; the executor uses the fallback handler.\<close>

theorem executor_dispatch_by_keyword_cascade_witness:
  "1 < length newRegistry \<and>
   fst (newRegistry ! 1) \<noteq> ''GeneralPurposeAgent'' \<and>
   canHandleStep (snd (newRegistry ! 1)) chartStep \<and>
   fst (newRegistry ! 0) = ''WebBrowsingAgent'' \<and>
   \<not> canHandleStep (snd (newRegistry ! 0)) chartStep \<and>
   selectAgentForStep newRegistry chartStep = Some DataAnalysisAgent \<and>
   map_option agentName (executorAgent chartStep) = Some ''GeneralPurposeAgent''"
proof -
  have h1: "1 < length newRegistry" "fst (newRegistry ! 1) \<noteq> ''GeneralPurposeAgent''"
    and h2: "snd (newRegistry ! 1) = DataAnalysisAgent"
    by (simp_all add: newRegistry_eq)
  have h3: "\<forall>j<1. fst (newRegistry ! j) = ''GeneralPurposeAgent''
                  \<or> \<not> canHandleStep (snd (newRegistry ! j)) chartStep"
    using chartStep_facts(1) by simp
  have h0: "fst (newRegistry ! 0) = ''WebBrowsingAgent''" by (simp add: newRegistry_eq)
  from executor_dispatch_by_keyword_cascade[of newRegistry chartStep]
  show ?thesis using h0 h1 h2 h3 chartStep_facts by simp
qed

text \<open>
  Claim C8 as stated says that the executor's handler is the first registered one whose
  \<open>canHandleStep\<close> accepts the step, and the fallback only when none does.  For the step
  \<open>Visit the page\<close> the web handler, registered first, accepts the step and the
  registry would select it, while the executor uses the fallback handler.
\<close>

theorem executor_falls_back_although_web_handler_matches:
  "canHandleStep WebBrowsingAgent visitStep \<and>
   map_option agentName (selectAgentForStep newRegistry visitStep) = Some ''WebBrowsingAgent'' \<and>
   map_option agentName (executorAgent visitStep) = Some ''GeneralPurposeAgent''"
  by (simp add: executorAgent_def analyzeStepForAgentSelection_def selectAgentForStep_def
      getAgent_def newRegistry_eq WebBrowsingAgent_def GeneralPurposeAgent_def someKeyword_def
      webKeywords_def visitStep_def pendingStep_def toLowerCase_def toLowerChar_def)

section \<open>Properties of the executor\<close>

subsection \<open>Store operations\<close>

lemma createAgentLog_fields [simp]:
  "tasks (createAgentLog tid sid lvl msg ag d) = tasks d"
  "steps (createAgentLog tid sid lvl msg ag d) = steps d"
  "nextId (createAgentLog tid sid lvl msg ag d) = nextId d"
  "clock (createAgentLog tid sid lvl msg ag d) = clock d"
  by (simp_all add: createAgentLog_def)

lemma logInfo_fields [simp]:
  "tasks (logInfo tid sid msg d) = tasks d"
  "steps (logInfo tid sid msg d) = steps d"
  "nextId (logInfo tid sid msg d) = nextId d"
  "clock (logInfo tid sid msg d) = clock d"
  by (simp_all add: logInfo_def)

lemma logError_fields [simp]:
  "tasks (logError tid sid msg d) = tasks d"
  "steps (logError tid sid msg d) = steps d"
  "nextId (logError tid sid msg d) = nextId d"
  "clock (logError tid sid msg d) = clock d"
  by (simp_all add: logError_def)

lemma tick_fields [simp]:
  "tasks (tick d) = tasks d"
  "steps (tick d) = steps d"
  "nextId (tick d) = nextId d"
  by (simp_all add: tick_def)

lemma setTaskStatus_fields [simp]:
  "steps (setTaskStatus tid st d) = steps d"
  "nextId (setTaskStatus tid st d) = nextId d"
  "clock (setTaskStatus tid st d) = clock d"
  by (simp_all add: setTaskStatus_def split: option.splits)

lemma taskStatusOf_setTaskStatus:
  "taskStatusOf (setTaskStatus tid st d) tid' =
     (if tid' = tid \<and> tasks d tid \<noteq> None then Some st else taskStatusOf d tid')"
  by (auto simp: taskStatusOf_def setTaskStatus_def split: option.splits)

lemma taskStatusOf_cong: "tasks d' = tasks d \<Longrightarrow> taskStatusOf d' tid = taskStatusOf d tid"
  by (simp add: taskStatusOf_def)

lemma updateStep_fields [simp]:
  "tasks (updateStep sid f d) = tasks d"
  "nextId (updateStep sid f d) = nextId d"
  "clock (updateStep sid f d) = clock d"
  by (simp_all add: updateStep_def split: option.splits)

lemma steps_updateStep:
  "steps (updateStep sid f d) sid' =
     (if sid' = sid then map_option f (steps d sid) else steps d sid')"
  by (simp add: updateStep_def split: option.splits)

lemma updateTaskStatus_fields [simp]:
  "steps (updateTaskStatus tid st d) = steps d"
  "nextId (updateTaskStatus tid st d) = nextId d"
  by (simp_all add: updateTaskStatus_def)

lemma taskStatusOf_updateTaskStatus:
  "taskStatusOf (updateTaskStatus tid st d) tid' =
     (if tid' = tid \<and> tasks d tid \<noteq> None then Some st else taskStatusOf d tid')"
  by (simp add: updateTaskStatus_def taskStatusOf_cong[of "logInfo _ _ _ _"]
      taskStatusOf_setTaskStatus)

lemma handleExecutionError_fields [simp]:
  "steps (handleExecutionError tid e d) = steps d"
  "nextId (handleExecutionError tid e d) = nextId d"
  by (simp_all add: handleExecutionError_def)

lemma taskStatusOf_handleExecutionError:
  "tasks d tid \<noteq> None \<Longrightarrow> taskStatusOf (handleExecutionError tid e d) tid = Some FAILED"
  by (simp add: handleExecutionError_def taskStatusOf_updateTaskStatus)

lemma cancelTask_nextId [simp]: "nextId (cancelTask tid d) = nextId d"
  by (simp add: cancelTask_def Let_def findTask_def split: option.splits)

lemma steps_cancelTask_other:
  "steps d sid = Some r \<Longrightarrow> status r \<noteq> STEP_IN_PROGRESS \<Longrightarrow> steps (cancelTask tid d) sid = Some r"
  by (simp add: cancelTask_def Let_def findTask_def split: option.splits)

lemma steps_cancelTask_rel:
  "rel_option sameRowKeys (steps d sid) (steps (cancelTask tid d) sid)"
  by (cases "steps d sid")
     (simp_all add: cancelTask_def Let_def findTask_def sameRowKeys_def split: option.splits)

lemma environment_nextId [simp]: "nextId (environment w pt tid d) = nextId d"
  by (simp add: environment_def)

lemma steps_environment_other:
  "steps d sid = Some r \<Longrightarrow> status r \<noteq> STEP_IN_PROGRESS \<Longrightarrow>
   steps (environment w pt tid d) sid = Some r"
  by (simp add: environment_def steps_cancelTask_other)

lemma environment_idle [simp]: "\<not> cancelAt w pt \<Longrightarrow> environment w pt tid d = d"
  by (simp add: environment_def)

subsection \<open>Rows that keep their keys\<close>

lemma sameRowKeys_refl [simp]: "sameRowKeys r r"
  by (simp add: sameRowKeys_def)

lemma sameRowKeys_trans: "sameRowKeys a b \<Longrightarrow> sameRowKeys b c \<Longrightarrow> sameRowKeys a c"
  by (simp add: sameRowKeys_def)

lemma keysKept_refl [simp]: "keysKept d d"
  by (simp add: keysKept_def option.rel_refl)

lemma keysKept_task: "keysKept d d' \<Longrightarrow> tasks d tid \<noteq> None \<Longrightarrow> tasks d' tid \<noteq> None"
  by (metis domIff keysKept_def)

lemma keysKept_row: "keysKept d d' \<Longrightarrow> steps d sid = Some r \<Longrightarrow> \<exists>r'. steps d' sid = Some r'"
  by (cases "steps d' sid") (auto simp: keysKept_def dest: spec[of _ sid])

lemma keysKept_trans: "keysKept a b \<Longrightarrow> keysKept b c \<Longrightarrow> keysKept a c"
  unfolding keysKept_def
proof (intro conjI allI)
  fix sid
  assume h: "nextId b = nextId a \<and> dom (tasks b) = dom (tasks a) \<and>
             (\<forall>sid. rel_option sameRowKeys (steps a sid) (steps b sid))"
    "nextId c = nextId b \<and> dom (tasks c) = dom (tasks b) \<and>
     (\<forall>sid. rel_option sameRowKeys (steps b sid) (steps c sid))"
  then have "rel_option sameRowKeys (steps a sid) (steps b sid)"
    "rel_option sameRowKeys (steps b sid) (steps c sid)" by simp_all
  then show "rel_option sameRowKeys (steps a sid) (steps c sid)"
    by (cases "steps a sid"; cases "steps b sid"; cases "steps c sid")
       (auto intro: sameRowKeys_trans)
qed simp_all

lemma keysKept_same_steps:
  "steps d' = steps d \<Longrightarrow> nextId d' = nextId d \<Longrightarrow> dom (tasks d') = dom (tasks d) \<Longrightarrow> keysKept d d'"
  by (simp add: keysKept_def option.rel_refl)

lemma dom_tasks_setTaskStatus [simp]: "dom (tasks (setTaskStatus tid st d)) = dom (tasks d)"
  by (auto simp: setTaskStatus_def split: option.splits)

lemma dom_tasks_cancelTask [simp]: "dom (tasks (cancelTask tid d)) = dom (tasks d)"
  by (simp add: cancelTask_def Let_def findTask_def split: option.splits)

lemma dom_tasks_updateTaskStatus [simp]: "dom (tasks (updateTaskStatus tid st d)) = dom (tasks d)"
  by (simp add: updateTaskStatus_def)

lemma keysKept_environment: "keysKept d (environment w pt tid d)"
  by (simp add: keysKept_def environment_def steps_cancelTask_rel option.rel_refl)

lemma keysKept_updateTaskStatus: "keysKept d (updateTaskStatus tid st d)"
  by (simp add: keysKept_same_steps)

lemma keysKept_handleExecutionError: "keysKept d (handleExecutionError tid e d)"
  by (simp add: keysKept_same_steps handleExecutionError_def)

lemma keysKept_updateStep:
  "(\<And>r. sameRowKeys r (f r)) \<Longrightarrow> keysKept d (updateStep sid f d)"
  unfolding keysKept_def
  by (auto simp: steps_updateStep option.rel_refl option.rel_map intro: option.rel_refl_strong)

lemma planRows_keysKept:
  assumes "planRows d tid n0 N" "keysKept d d'"
  shows "planRows d' tid n0 N"
proof -
  have rel: "rel_option sameRowKeys (steps d sid) (steps d' sid)" for sid
    using assms(2) by (simp add: keysKept_def)
  have a: "case steps d' sid of None \<Rightarrow> True | Some r \<Rightarrow> taskId r \<noteq> tid" if "sid < n0" for sid
    using assms(1) that rel[of sid]
    by (cases "steps d sid"; cases "steps d' sid") (auto simp: planRows_def sameRowKeys_def)
  have b: "case steps d' (n0 + i) of None \<Rightarrow> False
           | Some r \<Rightarrow> stepId r = n0 + i \<and> taskId r = tid \<and> stepNumber r = i + 1"
    if "i < N" for i
  proof -
    from assms(1) that
    have p: "case steps d (n0 + i) of None \<Rightarrow> False
             | Some r \<Rightarrow> stepId r = n0 + i \<and> taskId r = tid \<and> stepNumber r = i + 1"
      by (simp add: planRows_def)
    then show ?thesis
      using rel[of "n0 + i"]
      by (cases "steps d (n0 + i)"; cases "steps d' (n0 + i)") (auto simp: sameRowKeys_def)
  qed
  show ?thesis
    using assms a b by (simp add: planRows_def keysKept_def)
qed

subsection \<open>Storing the plan and reading it back\<close>

lemma findManySteps_planRows:
  assumes "planRows d tid n0 N"
  shows "findManySteps d tid = map (\<lambda>i. the (steps d (n0 + i))) [0..<N]"
proof -
  have low: "filter (\<lambda>s. taskId s = tid) (List.map_filter (steps d) [0..<n0]) = []"
    using assms by (auto simp: planRows_def List.map_filter_def filter_empty_conv)
  have all: "\<forall>sid\<in>set [n0..<n0 + N]. steps d sid \<noteq> None"
  proof
    fix sid assume "sid \<in> set [n0..<n0 + N]"
    then obtain i where "sid = n0 + i" "i < N"
      by (metis add_diff_inverse_nat add_less_cancel_left atLeastLessThan_iff not_less set_upt)
    with assms show "steps d sid \<noteq> None"
      by (auto simp: planRows_def split: option.splits)
  qed
  have up: "[n0..<n0 + N] = map (\<lambda>i. n0 + i) [0..<N]"
    using map_add_upt[of n0 N] by (simp add: add.commute)
  have "List.map_filter (steps d) [n0..<n0 + N] = map (\<lambda>sid. the (steps d sid)) [n0..<n0 + N]"
    using all by (simp add: List.map_filter_def filter_id_conv comp_def)
  also have "\<dots> = map (\<lambda>i. the (steps d (n0 + i))) [0..<N]"
    by (simp add: up comp_def)
  finally have high: "List.map_filter (steps d) [n0..<n0 + N]
                      = map (\<lambda>i. the (steps d (n0 + i))) [0..<N]" .
  have keep: "filter (\<lambda>s. taskId s = tid) (map (\<lambda>i. the (steps d (n0 + i))) [0..<N])
              = map (\<lambda>i. the (steps d (n0 + i))) [0..<N]"
    using assms by (auto simp: planRows_def filter_id_conv split: option.splits)
  have nums: "map stepNumber (map (\<lambda>i. the (steps d (n0 + i))) [0..<N]) = map Suc [0..<N]"
    using assms by (auto simp: planRows_def split: option.splits)
  have sorted: "sorted (map stepNumber (map (\<lambda>i. the (steps d (n0 + i))) [0..<N]))"
    unfolding nums by (simp add: sorted_map strict_sorted_iff flip: sorted_wrt_map)
  have split: "[0..<nextId d] = [0..<n0] @ [n0..<n0 + N]"
    using assms upt_add_eq_append[of 0 n0 N] by (simp add: planRows_def)
  have "List.map_filter (steps d) [0..<nextId d]
        = List.map_filter (steps d) [0..<n0] @ List.map_filter (steps d) [n0..<n0 + N]"
    unfolding split by (simp add: List.map_filter_def)
  then show ?thesis
    unfolding findManySteps_def
    by (simp add: low high keep sort_key_id_if_sorted[OF sorted])
qed

lemma createSteps_effect:
  "nextId (createSteps tid i ps d) = nextId d + length ps \<and>
   tasks (createSteps tid i ps d) = tasks d \<and>
   (\<forall>sid<nextId d. steps (createSteps tid i ps d) sid = steps d sid) \<and>
   (\<forall>j<length ps. steps (createSteps tid i ps d) (nextId d + j)
        = Some (pendingStep (nextId d + j) tid (i + j + 1) (description (ps ! j))))"
proof (induction ps arbitrary: i d)
  case Nil
  then show ?case by simp
next
  case (Cons p ps)
  let ?d1 = "createStep tid (i + 1) (description p) d"
  have n1: "nextId ?d1 = Suc (nextId d)" and t1: "tasks ?d1 = tasks d"
    and s1: "\<And>sid. steps ?d1 sid =
               (if sid = nextId d then Some (pendingStep (nextId d) tid (i + 1) (description p))
                else steps d sid)"
    by (simp_all add: createStep_def)
  note IH = Cons.IH[of "Suc i" ?d1]
  have a: "nextId (createSteps tid i (p # ps) d) = nextId d + length (p # ps)"
    using IH n1 by simp
  have b: "tasks (createSteps tid i (p # ps) d) = tasks d"
    using IH t1 by simp
  have c: "steps (createSteps tid i (p # ps) d) sid = steps d sid" if "sid < nextId d" for sid
    using IH n1 s1[of sid] that by simp
  have e: "steps (createSteps tid i (p # ps) d) (nextId d + j)
           = Some (pendingStep (nextId d + j) tid (i + j + 1) (description ((p # ps) ! j)))"
    if "j < length (p # ps)" for j
  proof (cases j)
    case 0
    then show ?thesis using IH n1 s1[of "nextId d"] by simp
  next
    case (Suc j')
    with that have "j' < length ps" by simp
    with IH n1 have "steps (createSteps tid (Suc i) ps ?d1) (Suc (nextId d) + j')
        = Some (pendingStep (Suc (nextId d) + j') tid (Suc i + j' + 1) (description (ps ! j')))"
      by simp
    then show ?thesis using Suc by simp
  qed
  show ?case using a b c e by blast
qed

lemma storePlanSteps_effect:
  "planRows (storePlanSteps tid plan d) tid (nextId d) (length plan) \<and>
   tasks (storePlanSteps tid plan d) = tasks d \<and>
   (\<forall>j<length plan. steps (storePlanSteps tid plan d) (nextId d + j)
        = Some (pendingStep (nextId d + j) tid (j + 1) (description (plan ! j))))"
proof -
  let ?d0 = "deleteManySteps tid d"
  have n0: "nextId ?d0 = nextId d" and t0: "tasks ?d0 = tasks d"
    and del: "\<And>sid. case steps ?d0 sid of None \<Rightarrow> True | Some r \<Rightarrow> taskId r \<noteq> tid"
    by (simp_all add: deleteManySteps_def split: option.splits)
  note ce = createSteps_effect[of tid 0 plan ?d0, unfolded n0 t0]
  have rows: "steps (createSteps tid 0 plan ?d0) (nextId d + j)
              = Some (pendingStep (nextId d + j) tid (j + 1) (description (plan ! j)))"
    if "j < length plan" for j
    using ce that by simp
  have old: "case steps (createSteps tid 0 plan ?d0) sid of None \<Rightarrow> True
             | Some r \<Rightarrow> taskId r \<noteq> tid" if "sid < nextId d" for sid
    using ce that del[of sid] by simp
  have "planRows (createSteps tid 0 plan ?d0) tid (nextId d) (length plan)"
    using ce old rows by (simp add: planRows_def pendingStep_def)
  then show ?thesis
    using ce rows by (simp add: storePlanSteps_def planRows_def)
qed

subsection \<open>One step\<close>

lemma steps_environment_some:
  "steps d sid = Some r \<Longrightarrow> \<exists>r'. steps (environment w pt tid d) sid = Some r'"
  using keysKept_environment keysKept_row by blast

lemma taskStatusOf_cancelTask:
  "taskStatusOf d tid = Some PLANNING \<or> taskStatusOf d tid = Some IN_PROGRESS \<Longrightarrow>
   taskStatusOf (cancelTask tid d) tid = Some FAILED"
  by (auto simp: cancelTask_def Let_def findTask_def taskStatusOf_def setTaskStatus_def
      createAgentLog_def tick_def split: option.splits)

text \<open>The store while the handler of a step runs.\<close>

lemma running_store:
  fixes w step d
  defines "d3 \<equiv> environment w (DuringStep (stepNumber step)) (taskId step) (startStep step d)"
  shows "keysKept d d3"
    and "\<And>sid r. sid \<noteq> stepId step \<Longrightarrow> steps d sid = Some r \<Longrightarrow> status r \<noteq> STEP_IN_PROGRESS
            \<Longrightarrow> steps d3 sid = Some r"
    and "\<And>r. steps d (stepId step) = Some r \<Longrightarrow> \<exists>r'. steps d3 (stepId step) = Some r'"
    and "\<not> cancelAt w (DuringStep (stepNumber step)) \<Longrightarrow> tasks d3 = tasks d"
    and "\<And>sid. \<not> cancelAt w (DuringStep (stepNumber step)) \<Longrightarrow> sid \<noteq> stepId step
            \<Longrightarrow> steps d3 sid = steps d sid"
    and "cancelAt w (DuringStep (stepNumber step)) \<Longrightarrow>
         taskStatusOf d (taskId step) = Some PLANNING \<or> taskStatusOf d (taskId step) = Some IN_PROGRESS
         \<Longrightarrow> taskStatusOf d3 (taskId step) = Some FAILED"
proof -
  define d2 where "d2 = startStep step d"
  have d3: "d3 = environment w (DuringStep (stepNumber step)) (taskId step) d2"
    by (simp add: d3_def d2_def)
  have s2: "steps d2 sid = (if sid = stepId step
              then map_option (\<lambda>r. r\<lparr>status := STEP_IN_PROGRESS, startedAt := Some (clock d)\<rparr>)
                     (steps d sid)
              else steps d sid)" for sid
    by (simp add: d2_def startStep_def Let_def steps_updateStep)
  have t2: "tasks d2 = tasks d" and n2: "nextId d2 = nextId d"
    by (simp_all add: d2_def startStep_def Let_def)
  have k2: "keysKept d d2"
    unfolding keysKept_def
    by (auto simp: s2 n2 t2 option.rel_map sameRowKeys_def intro: option.rel_refl)
  show "keysKept d d3"
    using k2 keysKept_environment[of d2] keysKept_trans unfolding d3 by blast
  show "steps d3 sid = Some r"
    if "sid \<noteq> stepId step" "steps d sid = Some r" "status r \<noteq> STEP_IN_PROGRESS" for sid r
    using that by (simp add: d3 steps_environment_other s2)
  show "\<exists>r'. steps d3 (stepId step) = Some r'" if "steps d (stepId step) = Some r" for r
    unfolding d3 using that by (intro steps_environment_some[of d2]) (simp add: s2)
  show "tasks d3 = tasks d" if "\<not> cancelAt w (DuringStep (stepNumber step))"
    using that by (simp add: d3 t2)
  show "steps d3 sid = steps d sid"
    if "\<not> cancelAt w (DuringStep (stepNumber step))" "sid \<noteq> stepId step" for sid
    using that by (simp add: d3 s2)
  show "taskStatusOf d3 (taskId step) = Some FAILED"
    if "cancelAt w (DuringStep (stepNumber step))"
      "taskStatusOf d (taskId step) = Some PLANNING \<or> taskStatusOf d (taskId step) = Some IN_PROGRESS"
  proof -
    have "taskStatusOf d2 (taskId step) = taskStatusOf d (taskId step)"
      by (simp add: taskStatusOf_def t2)
    with that show ?thesis
      by (simp add: d3 environment_def taskStatusOf_cancelTask)
  qed
qed

lemma executeTaskStep_returns:
  assumes "handlerOutcome w step = Inr res"
  shows "\<exists>d'. executeTaskStep w step d = (Inr (), d') \<and> keysKept d d' \<and>
           (\<forall>sid r. sid \<noteq> stepId step \<longrightarrow> steps d sid = Some r \<longrightarrow> status r \<noteq> STEP_IN_PROGRESS
                    \<longrightarrow> steps d' sid = Some r) \<and>
           (\<forall>r. steps d (stepId step) = Some r \<longrightarrow>
                (\<exists>r'. steps d' (stepId step) = Some r' \<and> status r' = STEP_COMPLETED \<and>
                      completedAt r' \<noteq> None)) \<and>
           (\<not> cancelAt w (DuringStep (stepNumber step)) \<longrightarrow>
                tasks d' = tasks d \<and> (\<forall>sid. sid \<noteq> stepId step \<longrightarrow> steps d' sid = steps d sid)) \<and>
           (cancelAt w (DuringStep (stepNumber step)) \<longrightarrow>
              (taskStatusOf d (taskId step) = Some PLANNING \<or>
               taskStatusOf d (taskId step) = Some IN_PROGRESS) \<longrightarrow>
              taskStatusOf d' (taskId step) = Some FAILED)"
proof -
  define d3 where "d3 = environment w (DuringStep (stepNumber step)) (taskId step) (startStep step d)"
  note rs = running_store[where d = d and w = w and step = step, folded d3_def]
  define d' where "d' = completeStep step d3"
  have run: "executeTaskStep w step d = (Inr (), d')"
    by (simp add: executeTaskStep_def assms d'_def d3_def Let_def)
  have s': "steps d' sid = (if sid = stepId step
              then map_option (\<lambda>r. r\<lparr>status := STEP_COMPLETED, completedAt := Some (clock d3)\<rparr>)
                     (steps d3 sid)
              else steps d3 sid)" for sid
    by (simp add: d'_def completeStep_def Let_def steps_updateStep)
  have t': "tasks d' = tasks d3" and n': "nextId d' = nextId d3"
    by (simp_all add: d'_def completeStep_def Let_def)
  have k': "keysKept d3 d'"
    unfolding keysKept_def
    by (auto simp: s' n' t' option.rel_map sameRowKeys_def intro: option.rel_refl)
  have K: "keysKept d d'" using rs(1) k' keysKept_trans by blast
  have F: "steps d' sid = Some r"
    if "sid \<noteq> stepId step" "steps d sid = Some r" "status r \<noteq> STEP_IN_PROGRESS" for sid r
    using rs(2)[OF that] that(1) by (simp add: s')
  have R: "\<exists>r'. steps d' (stepId step) = Some r' \<and> status r' = STEP_COMPLETED \<and>
                completedAt r' \<noteq> None" if "steps d (stepId step) = Some r" for r
    using rs(3)[OF that] by (auto simp: s')
  have T0: "tasks d' = tasks d \<and> (\<forall>sid. sid \<noteq> stepId step \<longrightarrow> steps d' sid = steps d sid)"
    if "\<not> cancelAt w (DuringStep (stepNumber step))"
    using rs(4)[OF that] rs(5)[OF that] by (simp add: t' s')
  have T1: "taskStatusOf d' (taskId step) = Some FAILED"
    if "cancelAt w (DuringStep (stepNumber step))"
      "taskStatusOf d (taskId step) = Some PLANNING \<or> taskStatusOf d (taskId step) = Some IN_PROGRESS"
    using rs(6)[OF that] by (simp add: taskStatusOf_def t')
  show ?thesis using run K F R T0 T1 by blast
qed

lemma executeTaskStep_throws:
  assumes "handlerOutcome w step = Inl e"
  shows "\<exists>d'. executeTaskStep w step d = (Inl e, d') \<and> keysKept d d' \<and>
           (\<forall>sid r. sid \<noteq> stepId step \<longrightarrow> steps d sid = Some r \<longrightarrow> status r \<noteq> STEP_IN_PROGRESS
                    \<longrightarrow> steps d' sid = Some r) \<and>
           (\<forall>r. steps d (stepId step) = Some r \<longrightarrow>
                (\<exists>r'. steps d' (stepId step) = Some r' \<and> status r' = STEP_FAILED \<and>
                      completedAt r' \<noteq> None))"
proof -
  define d3 where "d3 = environment w (DuringStep (stepNumber step)) (taskId step) (startStep step d)"
  note rs = running_store[where d = d and w = w and step = step, folded d3_def]
  define d' where "d' = handleStepExecutionError step e d3"
  have run: "executeTaskStep w step d = (Inl e, d')"
    by (simp add: executeTaskStep_def assms d'_def d3_def Let_def)
  have s': "steps d' sid = (if sid = stepId step
              then map_option (\<lambda>r. r\<lparr>status := STEP_FAILED, completedAt := Some (clock d3)\<rparr>)
                     (steps d3 sid)
              else steps d3 sid)" for sid
    by (simp add: d'_def handleStepExecutionError_def Let_def steps_updateStep)
  have n': "nextId d' = nextId d3" and t': "tasks d' = tasks d3"
    by (simp_all add: d'_def handleStepExecutionError_def Let_def)
  have k': "keysKept d3 d'"
    unfolding keysKept_def
    by (auto simp: s' n' t' option.rel_map sameRowKeys_def intro: option.rel_refl)
  have K: "keysKept d d'" using rs(1) k' keysKept_trans by blast
  have F: "steps d' sid = Some r"
    if "sid \<noteq> stepId step" "steps d sid = Some r" "status r \<noteq> STEP_IN_PROGRESS" for sid r
    using rs(2)[OF that] that(1) by (simp add: s')
  have R: "\<exists>r'. steps d' (stepId step) = Some r' \<and> status r' = STEP_FAILED \<and>
                completedAt r' \<noteq> None" if "steps d (stepId step) = Some r" for r
    using rs(3)[OF that] by (auto simp: s')
  show ?thesis using run K F R by blast
qed

subsection \<open>The step loop\<close>

text \<open>A run of steps whose handlers return and around which no cancellation is served:
  the loop passes them, marks their rows \<open>COMPLETED\<close> and touches nothing else.\<close>

lemma stepLoop_prefix:
  assumes "\<forall>x\<in>set pre. (\<exists>res. handlerOutcome w x = Inr res) \<and>
             \<not> cancelAt w (BeforeStep (stepNumber x)) \<and> \<not> cancelAt w (DuringStep (stepNumber x))"
    and "taskStatusOf d tid \<noteq> Some FAILED"
  shows "\<exists>d'. stepLoop w tid (pre @ post) d = stepLoop w tid post d' \<and> tasks d' = tasks d \<and>
           keysKept d d' \<and>
           (\<forall>sid. sid \<notin> stepId ` set pre \<longrightarrow> steps d' sid = steps d sid) \<and>
           (\<forall>x\<in>set pre. \<forall>r. steps d (stepId x) = Some r \<longrightarrow>
              (\<exists>r'. steps d' (stepId x) = Some r' \<and> status r' = STEP_COMPLETED \<and>
                    completedAt r' \<noteq> None))"
  using assms
proof (induction pre arbitrary: d)
  case Nil
  have "stepLoop w tid ([] @ post) d = stepLoop w tid post d \<and> tasks d = tasks d \<and> keysKept d d"
    by simp
  then show ?case by auto
next
  case (Cons x pre)
  from Cons.prems(1) obtain res where out: "handlerOutcome w x = Inr res"
    and nb: "\<not> cancelAt w (BeforeStep (stepNumber x))"
    and nd: "\<not> cancelAt w (DuringStep (stepNumber x))"
    by auto
  from executeTaskStep_returns[OF out, of d] nd
  obtain d1 where run: "executeTaskStep w x d = (Inr (), d1)"
    and k1: "keysKept d d1"
    and r1: "\<And>r. steps d (stepId x) = Some r \<Longrightarrow>
               \<exists>r'. steps d1 (stepId x) = Some r' \<and> status r' = STEP_COMPLETED \<and>
                    completedAt r' \<noteq> None"
    and t1: "tasks d1 = tasks d"
    and f1: "\<And>sid. sid \<noteq> stepId x \<Longrightarrow> steps d1 sid = steps d sid"
    by blast
  have st1: "taskStatusOf d1 tid = taskStatusOf d tid"
    by (simp add: taskStatusOf_def t1)
  have cont: "stepLoop w tid ((x # pre) @ post) d = stepLoop w tid (pre @ post) d1"
    using run nb Cons.prems(2)
    by (auto simp: findTask_def taskStatusOf_def t1 split: option.splits)
  from Cons.prems(1) have pre': "\<forall>y\<in>set pre. (\<exists>res. handlerOutcome w y = Inr res) \<and>
             \<not> cancelAt w (BeforeStep (stepNumber y)) \<and> \<not> cancelAt w (DuringStep (stepNumber y))"
    by simp
  from Cons.IH[OF pre', of d1] st1 Cons.prems(2)
  obtain d' where loop: "stepLoop w tid (pre @ post) d1 = stepLoop w tid post d'"
    and t': "tasks d' = tasks d1" and k': "keysKept d1 d'"
    and f': "\<And>sid. sid \<notin> stepId ` set pre \<Longrightarrow> steps d' sid = steps d1 sid"
    and c': "\<And>y r. y \<in> set pre \<Longrightarrow> steps d1 (stepId y) = Some r \<Longrightarrow>
               \<exists>r'. steps d' (stepId y) = Some r' \<and> status r' = STEP_COMPLETED \<and>
                    completedAt r' \<noteq> None"
    by auto
  have completed: "\<exists>r'. steps d' (stepId y) = Some r' \<and> status r' = STEP_COMPLETED \<and>
                   completedAt r' \<noteq> None"
    if y: "y \<in> set (x # pre)" and row: "steps d (stepId y) = Some r" for y r
  proof (cases "stepId y \<in> stepId ` set pre")
    case True
    then obtain z where z: "z \<in> set pre" "stepId z = stepId y" by auto
    from keysKept_row[OF k1 row] obtain r1 where "steps d1 (stepId y) = Some r1" by blast
    with c'[OF z(1), of r1] z(2) show ?thesis by simp
  next
    case False
    with y have "y = x" by auto
    with r1[of r] row f'[OF False] show ?thesis by simp
  qed
  have frame: "steps d' sid = steps d sid" if "sid \<notin> stepId ` set (x # pre)" for sid
    using that f'[of sid] f1[of sid] by simp
  have a: "stepLoop w tid ((x # pre) @ post) d = stepLoop w tid post d'"
    using cont loop by simp
  have b: "tasks d' = tasks d" using t' t1 by simp
  have c: "keysKept d d'" using k1 k' by (rule keysKept_trans)
  show ?case
  proof (intro exI[of _ d'] conjI ballI allI impI)
    show "stepLoop w tid ((x # pre) @ post) d = stepLoop w tid post d'" by (rule a)
    show "tasks d' = tasks d" by (rule b)
    show "keysKept d d'" by (rule c)
    show "steps d' sid = steps d sid" if "sid \<notin> stepId ` set (x # pre)" for sid
      using that by (rule frame)
    show "\<exists>r'. steps d' (stepId y) = Some r' \<and> status r' = STEP_COMPLETED \<and>
               completedAt r' \<noteq> None"
      if "y \<in> set (x # pre)" "steps d (stepId y) = Some r" for y r
      using that by (rule completed)
  qed
qed

lemma executorAgent_some: "\<exists>a. executorAgent step = Some a"
  using executorAgent_name[of step] by (cases "executorAgent step") simp_all

lemma handlerOutcome_returns:
  "stepReturns w (stepNumber step) \<Longrightarrow> \<exists>res. handlerOutcome w step = Inr res"
  using executorAgent_some[of step] by (auto simp: handlerOutcome_def stepReturns_def)

lemma handlerOutcome_throws:
  "stepThrows w (stepNumber step) \<Longrightarrow> \<exists>e. handlerOutcome w step = Inl e"
  using executorAgent_some[of step] by (auto simp: handlerOutcome_def stepThrows_def)

lemma taskStatusOf_cancelTask_failed:
  "taskStatusOf d tid = Some FAILED \<Longrightarrow> taskStatusOf (cancelTask tid' d) tid = Some FAILED"
  by (auto simp: cancelTask_def Let_def findTask_def taskStatusOf_def setTaskStatus_def
      createAgentLog_def tick_def split: option.splits)

lemma taskStatusOf_environment_failed:
  "taskStatusOf d tid = Some FAILED \<Longrightarrow> taskStatusOf (environment w pt tid' d) tid = Some FAILED"
  by (simp add: environment_def taskStatusOf_cancelTask_failed)

lemma executeTaskStep_keeps_failed:
  assumes "taskStatusOf d tid = Some FAILED"
  shows "taskStatusOf (snd (executeTaskStep w step d)) tid = Some FAILED"
proof -
  have a: "taskStatusOf (startStep step d) tid = Some FAILED"
    using assms by (simp add: taskStatusOf_def startStep_def Let_def)
  have b: "taskStatusOf (environment w (DuringStep (stepNumber step)) (taskId step)
                          (startStep step d)) tid = Some FAILED"
    using a by (rule taskStatusOf_environment_failed)
  show ?thesis
    using b
    by (cases "handlerOutcome w step")
       (simp_all add: executeTaskStep_def Let_def taskStatusOf_def completeStep_def
          handleStepExecutionError_def)
qed

text \<open>The step at which the loop ends: its handler throws, or a cancellation is served
  just before or while it runs.  No later step is started.\<close>

lemma stepLoop_last:
  assumes stop: "(\<exists>e. handlerOutcome w s = Inl e) \<or>
                 (taskId s = tid \<and> taskStatusOf d tid = Some IN_PROGRESS \<and>
                  (cancelAt w (BeforeStep (stepNumber s)) \<or> cancelAt w (DuringStep (stepNumber s))))"
  shows "\<exists>res dc. stepLoop w tid (s # rest) d = (res, dc) \<and> keysKept d dc \<and>
           (\<forall>sid row. sid \<noteq> stepId s \<longrightarrow> steps d sid = Some row \<longrightarrow>
                status row \<noteq> STEP_IN_PROGRESS \<longrightarrow> steps dc sid = Some row) \<and>
           (\<forall>row. steps d (stepId s) = Some row \<longrightarrow> status row \<noteq> STEP_IN_PROGRESS \<longrightarrow>
              (\<exists>r'. steps dc (stepId s) = Some r' \<and> completedAt r' \<noteq> None \<and>
                    status r' = (case handlerOutcome w s of
                                   Inl e \<Rightarrow> STEP_FAILED | Inr v \<Rightarrow> STEP_COMPLETED))) \<and>
           res = (case handlerOutcome w s of Inl e \<Rightarrow> Inl e | Inr v \<Rightarrow> Inr ())"
proof -
  define db where "db = environment w (BeforeStep (stepNumber s)) tid d"
  have kb: "keysKept d db" by (simp add: db_def keysKept_environment)
  have fb: "steps db sid = Some row" if "steps d sid = Some row" "status row \<noteq> STEP_IN_PROGRESS"
    for sid row using that by (simp add: db_def steps_environment_other)
  show ?thesis
  proof (cases "handlerOutcome w s")
    case (Inl e)
    from executeTaskStep_throws[OF Inl, of db]
    obtain dc where run: "executeTaskStep w s db = (Inl e, dc)" and kc: "keysKept db dc"
      and fc: "\<And>sid row. sid \<noteq> stepId s \<Longrightarrow> steps db sid = Some row \<Longrightarrow>
                 status row \<noteq> STEP_IN_PROGRESS \<Longrightarrow> steps dc sid = Some row"
      and rc: "\<And>row. steps db (stepId s) = Some row \<Longrightarrow>
                 \<exists>r'. steps dc (stepId s) = Some r' \<and> status r' = STEP_FAILED \<and>
                      completedAt r' \<noteq> None"
      by blast
    have loop: "stepLoop w tid (s # rest) d = (Inl e, dc)"
      using run by (simp add: db_def)
    show ?thesis
    proof (intro exI[of _ "Inl e"] exI[of _ dc] conjI allI impI)
      show "stepLoop w tid (s # rest) d = (Inl e, dc)" by (rule loop)
      show "keysKept d dc" using kb kc by (rule keysKept_trans)
      show "steps dc sid = Some row"
        if "sid \<noteq> stepId s" "steps d sid = Some row" "status row \<noteq> STEP_IN_PROGRESS" for sid row
        using fc[OF that(1) fb[OF that(2,3)] that(3)] .
      show "\<exists>r'. steps dc (stepId s) = Some r' \<and> completedAt r' \<noteq> None \<and>
              status r' = (case handlerOutcome w s of Inl e \<Rightarrow> STEP_FAILED | Inr v \<Rightarrow> STEP_COMPLETED)"
        if "steps d (stepId s) = Some row" "status row \<noteq> STEP_IN_PROGRESS" for row
        using rc[OF fb[OF that]] Inl by auto
      show "Inl e = (case handlerOutcome w s of Inl e \<Rightarrow> Inl e | Inr v \<Rightarrow> Inr ())"
        using Inl by simp
    qed
  next
    case (Inr v)
    with stop have tid: "taskId s = tid" and st: "taskStatusOf d tid = Some IN_PROGRESS"
      and c: "cancelAt w (BeforeStep (stepNumber s)) \<or> cancelAt w (DuringStep (stepNumber s))"
      by auto
    from executeTaskStep_returns[OF Inr, of db]
    obtain dc where run: "executeTaskStep w s db = (Inr (), dc)" and kc: "keysKept db dc"
      and fc: "\<And>sid row. sid \<noteq> stepId s \<Longrightarrow> steps db sid = Some row \<Longrightarrow>
                 status row \<noteq> STEP_IN_PROGRESS \<Longrightarrow> steps dc sid = Some row"
      and rc: "\<And>row. steps db (stepId s) = Some row \<Longrightarrow>
                 \<exists>r'. steps dc (stepId s) = Some r' \<and> status r' = STEP_COMPLETED \<and>
                      completedAt r' \<noteq> None"
      and t1: "cancelAt w (DuringStep (stepNumber s)) \<Longrightarrow>
                 taskStatusOf db (taskId s) = Some PLANNING \<or>
                 taskStatusOf db (taskId s) = Some IN_PROGRESS \<Longrightarrow>
                 taskStatusOf dc (taskId s) = Some FAILED"
      by blast
    have failed: "taskStatusOf dc tid = Some FAILED"
    proof (cases "cancelAt w (BeforeStep (stepNumber s))")
      case True
      then have "taskStatusOf db tid = Some FAILED"
        using st by (simp add: db_def environment_def taskStatusOf_cancelTask)
      from executeTaskStep_keeps_failed[OF this, of w s] run show ?thesis by simp
    next
      case False
      then have "db = d" by (simp add: db_def)
      with False c t1 st tid show ?thesis by simp
    qed
    have loop: "stepLoop w tid (s # rest) d = (Inr (), dc)"
      using run failed by (auto simp: db_def findTask_def taskStatusOf_def split: option.splits)
    show ?thesis
    proof (intro exI[of _ "Inr ()"] exI[of _ dc] conjI allI impI)
      show "stepLoop w tid (s # rest) d = (Inr (), dc)" by (rule loop)
      show "keysKept d dc" using kb kc by (rule keysKept_trans)
      show "steps dc sid = Some row"
        if "sid \<noteq> stepId s" "steps d sid = Some row" "status row \<noteq> STEP_IN_PROGRESS" for sid row
        using fc[OF that(1) fb[OF that(2,3)] that(3)] .
      show "\<exists>r'. steps dc (stepId s) = Some r' \<and> completedAt r' \<noteq> None \<and>
              status r' = (case handlerOutcome w s of Inl e \<Rightarrow> STEP_FAILED | Inr v \<Rightarrow> STEP_COMPLETED)"
        if "steps d (stepId s) = Some row" "status row \<noteq> STEP_IN_PROGRESS" for row
        using rc[OF fb[OF that]] Inr by auto
      show "Inr () = (case handlerOutcome w s of Inl e \<Rightarrow> Inl e | Inr v \<Rightarrow> Inr ())"
        using Inr by simp
    qed
  qed
qed

subsection \<open>The whole execution\<close>

lemma executeTask_start:
  assumes task: "tasks d tid = Some task"
    and resp: "llm w (constructPlanningPrompt task) = Inr planText"
  shows "\<exists>d5. executeTask w tid d
               = finishTask tid
                   (stepLoop w tid
                      (map (planRow (nextId d) tid (parsePlanFromLLMResponse planText))
                         [0..<length (parsePlanFromLLMResponse planText)]) d5) \<and>
              planRows d5 tid (nextId d) (length (parsePlanFromLLMResponse planText)) \<and>
              taskStatusOf d5 tid = Some IN_PROGRESS \<and>
              (\<forall>j<length (parsePlanFromLLMResponse planText).
                  steps d5 (nextId d + j)
                    = Some (planRow (nextId d) tid (parsePlanFromLLMResponse planText) j))"
proof -
  define plan where "plan = parsePlanFromLLMResponse planText"
  define d3 where "d3 = environment w WhilePlanning tid
                          (logInfo tid None ''Task execution started''
                             (updateTaskStatus tid PLANNING d))"
  define d4 where "d4 = storePlanSteps tid plan d3"
  define d5 where "d5 = updateTaskStatus tid IN_PROGRESS d4"
  have k3: "keysKept d d3"
  proof -
    have "keysKept d (logInfo tid None ''Task execution started'' (updateTaskStatus tid PLANNING d))"
      by (simp add: keysKept_same_steps)
    then show ?thesis
      unfolding d3_def using keysKept_environment keysKept_trans by blast
  qed
  have n3: "nextId d3 = nextId d" using k3 by (simp add: keysKept_def)
  have t3: "tasks d3 tid \<noteq> None" using keysKept_task[OF k3] task by simp
  note sp = storePlanSteps_effect[of tid plan d3, folded d4_def, unfolded n3]
  have p5: "planRows d5 tid (nextId d) (length plan)"
    using sp planRows_keysKept[OF _ keysKept_updateTaskStatus] by (simp add: d5_def)
  have rows5: "steps d5 (nextId d + j) = Some (planRow (nextId d) tid plan j)"
    if "j < length plan" for j
    using sp that by (simp add: d5_def planRow_def)
  have st5: "taskStatusOf d5 tid = Some IN_PROGRESS"
    using sp t3 by (simp add: d5_def taskStatusOf_updateTaskStatus)
  have fm: "findManySteps d5 tid = map (planRow (nextId d) tid plan) [0..<length plan]"
    unfolding findManySteps_planRows[OF p5] using rows5 by simp
  have cp: "createPlan (llm w) task = Inr plan"
    by (simp add: createPlan_def resp plan_def)
  have "executeTask w tid d = finishTask tid (executeTaskSteps w tid d5)"
    by (simp add: executeTask_def findTask_def task cp Let_def finishTask_def d5_def d4_def d3_def
        split: prod.splits sum.splits)
  then have "executeTask w tid d
             = finishTask tid (stepLoop w tid (map (planRow (nextId d) tid plan) [0..<length plan]) d5)"
    by (simp add: executeTaskSteps_def fm)
  then show ?thesis
    using p5 st5 rows5 unfolding plan_def by blast
qed

lemma planRow_fields [simp]:
  "stepId (planRow n0 tid plan j) = n0 + j"
  "taskId (planRow n0 tid plan j) = tid"
  "stepNumber (planRow n0 tid plan j) = j + 1"
  "status (planRow n0 tid plan j) = STEP_PENDING"
  "startedAt (planRow n0 tid plan j) = None"
  by (simp_all add: planRow_def pendingStep_def)

text \<open>The first \<open>k\<close> steps, when their handlers return and no cancellation is served
  around them.\<close>

lemma executeTask_prefix:
  assumes task: "tasks d tid = Some task"
    and resp: "llm w (constructPlanningPrompt task) = Inr planText"
    and k: "k \<le> length (parsePlanFromLLMResponse planText)"
    and quiet: "\<forall>n. 1 \<le> n \<and> n \<le> k \<longrightarrow> stepReturns w n \<and> quietAt w n"
  shows "\<exists>dk. executeTask w tid d
               = finishTask tid
                   (stepLoop w tid
                      (map (planRow (nextId d) tid (parsePlanFromLLMResponse planText))
                         [k..<length (parsePlanFromLLMResponse planText)]) dk) \<and>
              planRows dk tid (nextId d) (length (parsePlanFromLLMResponse planText)) \<and>
              taskStatusOf dk tid = Some IN_PROGRESS \<and>
              (\<forall>j<k. \<exists>r. steps dk (nextId d + j) = Some r \<and> status r = STEP_COMPLETED \<and>
                          completedAt r \<noteq> None) \<and>
              (\<forall>j. k \<le> j \<and> j < length (parsePlanFromLLMResponse planText) \<longrightarrow>
                  steps dk (nextId d + j)
                    = Some (planRow (nextId d) tid (parsePlanFromLLMResponse planText) j))"
proof -
  define plan where "plan = parsePlanFromLLMResponse planText"
  define N where "N = length plan"
  define row where "row = planRow (nextId d) tid plan"
  from executeTask_start[OF task resp, folded plan_def, folded N_def row_def]
  obtain d5 where run: "executeTask w tid d = finishTask tid (stepLoop w tid (map row [0..<N]) d5)"
    and p5: "planRows d5 tid (nextId d) N"
    and st5: "taskStatusOf d5 tid = Some IN_PROGRESS"
    and rows5: "\<And>j. j < N \<Longrightarrow> steps d5 (nextId d + j) = Some (row j)"
    by blast
  have kN: "k \<le> N" using k by (simp add: N_def plan_def)
  have split: "map row [0..<N] = map row [0..<k] @ map row [k..<N]"
    using kN by (metis le_add_diff_inverse map_append upt_add_eq_append zero_le)
  have pre: "\<forall>x\<in>set (map row [0..<k]). (\<exists>res. handlerOutcome w x = Inr res) \<and>
               \<not> cancelAt w (BeforeStep (stepNumber x)) \<and> \<not> cancelAt w (DuringStep (stepNumber x))"
  proof
    fix x assume "x \<in> set (map row [0..<k])"
    then obtain j where j: "j < k" "x = row j" by auto
    then have n: "stepNumber x = j + 1" by (simp add: row_def)
    with quiet j have "stepReturns w (stepNumber x)" "quietAt w (stepNumber x)" by simp_all
    then show "(\<exists>res. handlerOutcome w x = Inr res) \<and>
               \<not> cancelAt w (BeforeStep (stepNumber x)) \<and> \<not> cancelAt w (DuringStep (stepNumber x))"
      using handlerOutcome_returns by (simp add: quietAt_def)
  qed
  have nf: "taskStatusOf d5 tid \<noteq> Some FAILED" using st5 by simp
  from stepLoop_prefix[OF pre nf, of "map row [k..<N]"]
  obtain dk where loop: "stepLoop w tid (map row [0..<k] @ map row [k..<N]) d5
                         = stepLoop w tid (map row [k..<N]) dk"
    and tk: "tasks dk = tasks d5" and kk: "keysKept d5 dk"
    and fk: "\<And>sid. sid \<notin> stepId ` set (map row [0..<k]) \<Longrightarrow> steps dk sid = steps d5 sid"
    and ck: "\<And>x r. x \<in> set (map row [0..<k]) \<Longrightarrow> steps d5 (stepId x) = Some r \<Longrightarrow>
               \<exists>r'. steps dk (stepId x) = Some r' \<and> status r' = STEP_COMPLETED \<and>
                    completedAt r' \<noteq> None"
    by blast
  have a: "executeTask w tid d = finishTask tid (stepLoop w tid (map row [k..<N]) dk)"
    using run split loop by simp
  have b: "planRows dk tid (nextId d) N" using p5 kk by (rule planRows_keysKept)
  have c: "taskStatusOf dk tid = Some IN_PROGRESS"
    using st5 tk by (simp add: taskStatusOf_def)
  have e: "\<exists>r. steps dk (nextId d + j) = Some r \<and> status r = STEP_COMPLETED \<and> completedAt r \<noteq> None"
    if "j < k" for j
  proof -
    have "row j \<in> set (map row [0..<k])" using that by simp
    moreover have "steps d5 (stepId (row j)) = Some (row j)"
      using that kN rows5[of j] by (simp add: row_def)
    ultimately show ?thesis using ck[of "row j" "row j"] by (simp add: row_def)
  qed
  have f: "steps dk (nextId d + j) = Some (row j)" if "k \<le> j" "j < N" for j
  proof -
    have "nextId d + j \<notin> stepId ` set (map row [0..<k])"
    proof
      assume "nextId d + j \<in> stepId ` set (map row [0..<k])"
      then obtain i where "i < k" "nextId d + j = stepId (row i)" by auto
      with that show False by (simp add: row_def)
    qed
    from fk[OF this] rows5[OF that(2)] show ?thesis by simp
  qed
  show ?thesis
    using a b c e f unfolding plan_def[symmetric] N_def[symmetric] row_def[symmetric] by blast
qed

lemma finishTask_effect:
  "steps (snd (finishTask tid (res, dc))) = steps dc \<and>
   keysKept dc (snd (finishTask tid (res, dc))) \<and>
   (tasks dc tid \<noteq> None \<longrightarrow>
      taskStatusOf (snd (finishTask tid (res, dc))) tid
        = Some (case res of Inl e \<Rightarrow> FAILED | Inr u \<Rightarrow> RESOLVED))"
proof (cases res)
  case (Inl e)
  then show ?thesis
    by (simp add: finishTask_def keysKept_handleExecutionError taskStatusOf_handleExecutionError)
next
  case (Inr u)
  have "taskStatusOf (logInfo tid None ''Task execution completed successfully''
                        (updateTaskStatus tid RESOLVED dc)) tid
        = taskStatusOf (updateTaskStatus tid RESOLVED dc) tid"
    by (simp add: taskStatusOf_def)
  with Inr show ?thesis
    by (simp add: finishTask_def keysKept_same_steps taskStatusOf_updateTaskStatus)
qed

lemma findManySteps_nth:
  assumes "planRows d tid n0 N"
  shows "length (findManySteps d tid) = N"
    and "j < N \<Longrightarrow> findManySteps d tid ! j = the (steps d (n0 + j))"
  by (simp_all add: findManySteps_planRows[OF assms])

text \<open>The execution up to the step at which the loop ends.\<close>

lemma executeTask_stops_at:
  assumes task: "tasks d tid = Some task"
    and resp: "llm w (constructPlanningPrompt task) = Inr planText"
    and k: "k < length (parsePlanFromLLMResponse planText)"
    and quiet: "\<forall>n. 1 \<le> n \<and> n \<le> k \<longrightarrow> stepReturns w n \<and> quietAt w n"
    and stop: "stepThrows w (k + 1) \<or> cancelAt w (BeforeStep (k + 1)) \<or> cancelAt w (DuringStep (k + 1))"
  shows "\<exists>res dc.
           executeTask w tid d = finishTask tid (res, dc) \<and>
           res = (case handlerOutcome w (planRow (nextId d) tid (parsePlanFromLLMResponse planText) k)
                  of Inl e \<Rightarrow> Inl e | Inr v \<Rightarrow> Inr ()) \<and>
           planRows dc tid (nextId d) (length (parsePlanFromLLMResponse planText)) \<and>
           tasks dc tid \<noteq> None \<and>
           (\<forall>j<k. \<exists>r. steps dc (nextId d + j) = Some r \<and> status r = STEP_COMPLETED \<and>
                       completedAt r \<noteq> None) \<and>
           (\<exists>r. steps dc (nextId d + k) = Some r \<and> completedAt r \<noteq> None \<and>
                status r = (case handlerOutcome w
                                   (planRow (nextId d) tid (parsePlanFromLLMResponse planText) k)
                            of Inl e \<Rightarrow> STEP_FAILED | Inr v \<Rightarrow> STEP_COMPLETED)) \<and>
           (\<forall>j. k < j \<and> j < length (parsePlanFromLLMResponse planText) \<longrightarrow>
               steps dc (nextId d + j)
                 = Some (planRow (nextId d) tid (parsePlanFromLLMResponse planText) j))"
proof -
  define plan where "plan = parsePlanFromLLMResponse planText"
  define N where "N = length plan"
  define row where "row = planRow (nextId d) tid plan"
  have kN: "k < N" "k \<le> length (parsePlanFromLLMResponse planText)"
    using k by (simp_all add: N_def plan_def)
  from executeTask_prefix[OF task resp kN(2) quiet, folded plan_def, folded N_def row_def]
  obtain dk where run: "executeTask w tid d = finishTask tid (stepLoop w tid (map row [k..<N]) dk)"
    and pk: "planRows dk tid (nextId d) N"
    and stk: "taskStatusOf dk tid = Some IN_PROGRESS"
    and ck: "\<And>j. j < k \<Longrightarrow> \<exists>r. steps dk (nextId d + j) = Some r \<and> status r = STEP_COMPLETED \<and>
                                  completedAt r \<noteq> None"
    and rk: "\<And>j. k \<le> j \<Longrightarrow> j < N \<Longrightarrow> steps dk (nextId d + j) = Some (row j)"
    by blast
  have lst: "map row [k..<N] = row k # map row [Suc k..<N]"
    using kN by (simp add: upt_conv_Cons)
  have stop': "(\<exists>e. handlerOutcome w (row k) = Inl e) \<or>
               (taskId (row k) = tid \<and> taskStatusOf dk tid = Some IN_PROGRESS \<and>
                (cancelAt w (BeforeStep (stepNumber (row k))) \<or>
                 cancelAt w (DuringStep (stepNumber (row k)))))"
    using stop stk handlerOutcome_throws[of w "row k"] by (auto simp: row_def)
  from stepLoop_last[OF stop', of "map row [Suc k..<N]"]
  obtain res dc where loop: "stepLoop w tid (row k # map row [Suc k..<N]) dk = (res, dc)"
    and kc: "keysKept dk dc"
    and fc: "\<And>sid r. sid \<noteq> stepId (row k) \<Longrightarrow> steps dk sid = Some r \<Longrightarrow>
               status r \<noteq> STEP_IN_PROGRESS \<Longrightarrow> steps dc sid = Some r"
    and rc: "\<And>r. steps dk (stepId (row k)) = Some r \<Longrightarrow> status r \<noteq> STEP_IN_PROGRESS \<Longrightarrow>
               \<exists>r'. steps dc (stepId (row k)) = Some r' \<and> completedAt r' \<noteq> None \<and>
                    status r' = (case handlerOutcome w (row k) of
                                   Inl e \<Rightarrow> STEP_FAILED | Inr v \<Rightarrow> STEP_COMPLETED)"
    and res: "res = (case handlerOutcome w (row k) of Inl e \<Rightarrow> Inl e | Inr v \<Rightarrow> Inr ())"
    by blast
  have a: "executeTask w tid d = finishTask tid (res, dc)"
    using run lst loop by simp
  have b: "planRows dc tid (nextId d) N" using pk kc by (rule planRows_keysKept)
  have c: "tasks dc tid \<noteq> None"
    using keysKept_task[OF kc, of tid] stk by (auto simp: taskStatusOf_def)
  have e: "\<exists>r. steps dc (nextId d + j) = Some r \<and> status r = STEP_COMPLETED \<and> completedAt r \<noteq> None"
    if "j < k" for j
  proof -
    from ck[OF that] obtain r where r: "steps dk (nextId d + j) = Some r"
      "status r = STEP_COMPLETED" "completedAt r \<noteq> None" by blast
    have "nextId d + j \<noteq> stepId (row k)" using that by (simp add: row_def)
    from fc[OF this r(1)] r show ?thesis by simp
  qed
  have f: "\<exists>r. steps dc (nextId d + k) = Some r \<and> completedAt r \<noteq> None \<and>
               status r = (case handlerOutcome w (row k) of
                             Inl e \<Rightarrow> STEP_FAILED | Inr v \<Rightarrow> STEP_COMPLETED)"
    using rc[of "row k"] rk[of k] kN by (simp add: row_def)
  have g: "steps dc (nextId d + j) = Some (row j)" if "k < j" "j < N" for j
  proof -
    have "nextId d + j \<noteq> stepId (row k)" using that by (simp add: row_def)
    from fc[OF this rk[of j]] that show ?thesis by (simp add: row_def)
  qed
  show ?thesis
    unfolding plan_def[symmetric] N_def[symmetric] row_def[symmetric]
    using a res b c e f g by blast
qed

text \<open>
  Claim C2.  Let the handlers of steps \<open>1, \<dots>, k\<close> return with no cancellation served
  around them, and let the handler called for step \<open>k + 1\<close> throw.  Then the row of step
  \<open>k + 1\<close> ends \<open>FAILED\<close> with an end stamp, the earlier steps are \<open>COMPLETED\<close>, every later
  step is still \<open>PENDING\<close> and was never started, and the task ends \<open>FAILED\<close>.
\<close>

theorem step_exception_fails_step_and_task:
  assumes "tasks d tid = Some task"
    and "llm w (constructPlanningPrompt task) = Inr planText"
    and "k < length (parsePlanFromLLMResponse planText)"
    and "\<forall>n. 1 \<le> n \<and> n \<le> k \<longrightarrow> stepReturns w n \<and> quietAt w n"
    and "stepThrows w (k + 1)"
  shows "let d' = snd (executeTask w tid d); rows = findManySteps d' tid in
           taskStatusOf d' tid = Some FAILED \<and>
           length rows = length (parsePlanFromLLMResponse planText) \<and>
           status (rows ! k) = STEP_FAILED \<and> completedAt (rows ! k) \<noteq> None \<and>
           (\<forall>j<k. status (rows ! j) = STEP_COMPLETED) \<and>
           (\<forall>j. k < j \<and> j < length rows \<longrightarrow>
                status (rows ! j) = STEP_PENDING \<and> startedAt (rows ! j) = None)"
proof -
  define N where "N = length (parsePlanFromLLMResponse planText)"
  define row where "row = planRow (nextId d) tid (parsePlanFromLLMResponse planText)"
  have stop: "stepThrows w (k + 1) \<or> cancelAt w (BeforeStep (k + 1)) \<or> cancelAt w (DuringStep (k + 1))"
    using assms(5) by simp
  from handlerOutcome_throws[of w "row k"] assms(5)
  obtain e where out: "handlerOutcome w (row k) = Inl e" by (auto simp: row_def)
  from executeTask_stops_at[OF assms(1-4) stop, folded N_def row_def]
  obtain res dc where run: "executeTask w tid d = finishTask tid (res, dc)"
    and res: "res = Inl e"
    and pc: "planRows dc tid (nextId d) N" and tc: "tasks dc tid \<noteq> None"
    and c1: "\<And>j. j < k \<Longrightarrow> \<exists>r. steps dc (nextId d + j) = Some r \<and> status r = STEP_COMPLETED \<and>
                                  completedAt r \<noteq> None"
    and c2: "\<exists>r. steps dc (nextId d + k) = Some r \<and> completedAt r \<noteq> None \<and> status r = STEP_FAILED"
    and c3: "\<And>j. k < j \<Longrightarrow> j < N \<Longrightarrow> steps dc (nextId d + j) = Some (row j)"
    unfolding out by auto
  define d' where "d' = snd (executeTask w tid d)"
  note fe = finishTask_effect[of tid res dc, folded run, folded d'_def]
  have st: "steps d' = steps dc" using fe by simp
  have p': "planRows d' tid (nextId d) N" using pc fe by (auto intro: planRows_keysKept)
  note nth = findManySteps_nth[OF p']
  have kN: "k < N" using assms(3) by (simp add: N_def)
  have "taskStatusOf d' tid = Some FAILED" using fe tc res by simp
  moreover have "length (findManySteps d' tid) = N" by (rule nth(1))
  moreover have "status (findManySteps d' tid ! k) = STEP_FAILED \<and>
                 completedAt (findManySteps d' tid ! k) \<noteq> None"
    using c2 kN by (auto simp: nth(2) st)
  moreover have "\<forall>j<k. status (findManySteps d' tid ! j) = STEP_COMPLETED"
  proof (intro allI impI)
    fix j assume j: "j < k"
    from c1[OF j] obtain r where "steps dc (nextId d + j) = Some r" "status r = STEP_COMPLETED"
      by blast
    then show "status (findManySteps d' tid ! j) = STEP_COMPLETED"
      using j kN by (simp add: nth(2) st)
  qed
  moreover have "\<forall>j. k < j \<and> j < length (findManySteps d' tid) \<longrightarrow>
                   status (findManySteps d' tid ! j) = STEP_PENDING \<and>
                   startedAt (findManySteps d' tid ! j) = None"
  proof (intro allI impI)
    fix j assume j: "k < j \<and> j < length (findManySteps d' tid)"
    then have jN: "j < N" by (simp add: nth(1))
    from c3[of j] j jN have "steps dc (nextId d + j) = Some (row j)" by simp
    then show "status (findManySteps d' tid ! j) = STEP_PENDING \<and>
               startedAt (findManySteps d' tid ! j) = None"
      using jN by (simp add: nth(2) st row_def)
  qed
  ultimately show ?thesis
    unfolding Let_def d'_def[symmetric] N_def[symmetric] by blast
qed

lemma list_of_three: "length xs = 3 \<Longrightarrow> xs = [xs ! 0, xs ! 1, xs ! 2]"
  by (auto simp: numeral_3_eq_3 length_Suc_conv)

lemma threeStepText_length: "length (parsePlanFromLLMResponse threeStepText) = 3"
  by code_simp

lemma sample_hypotheses:
  "tasks initialDb ''t1'' = Some sampleTask"
  "threeStepCollaborator (constructPlanningPrompt sampleTask) = Inr threeStepText"
  by (simp_all add: initialDb_def threeStepCollaborator_def threeStepText_def)

text \<open>The plan of three steps whose second handler throws: step 1 \<open>COMPLETED\<close>, step 2
  \<open>FAILED\<close>, step 3 \<open>PENDING\<close>, task \<open>FAILED\<close>.\<close>

theorem step_exception_fails_step_and_task_witness:
  "tasks initialDb ''t1'' = Some sampleTask \<and>
   llm failingAtStep2 (constructPlanningPrompt sampleTask) = Inr threeStepText \<and>
   1 < length (parsePlanFromLLMResponse threeStepText) \<and>
   stepReturns failingAtStep2 1 \<and> quietAt failingAtStep2 1 \<and>
   stepThrows failingAtStep2 (1 + 1) \<and>
   taskStatusOf (snd (executeTask failingAtStep2 ''t1'' initialDb)) ''t1'' = Some FAILED \<and>
   map status (findManySteps (snd (executeTask failingAtStep2 ''t1'' initialDb)) ''t1'')
     = [STEP_COMPLETED, STEP_FAILED, STEP_PENDING]"
proof -
  have h1: "tasks initialDb ''t1'' = Some sampleTask" by (rule sample_hypotheses)
  have h2: "llm failingAtStep2 (constructPlanningPrompt sampleTask) = Inr threeStepText"
    by (simp add: failingAtStep2_def sample_hypotheses)
  have h3: "1 < length (parsePlanFromLLMResponse threeStepText)"
    by (simp add: threeStepText_length)
  have q: "stepReturns failingAtStep2 1 \<and> quietAt failingAtStep2 1"
    by (simp add: stepReturns_def quietAt_def failingAtStep2_def throwingAtStep2_def never_def)
  have h4: "\<forall>n. 1 \<le> n \<and> n \<le> 1 \<longrightarrow> stepReturns failingAtStep2 n \<and> quietAt failingAtStep2 n"
    using q by (auto simp: le_antisym)
  have h5: "stepThrows failingAtStep2 (1 + 1)"
    by (simp add: stepThrows_def failingAtStep2_def throwingAtStep2_def)
  define rows where "rows = findManySteps (snd (executeTask failingAtStep2 ''t1'' initialDb)) ''t1''"
  from step_exception_fails_step_and_task[OF h1 h2 h3 h4 h5]
  have c: "taskStatusOf (snd (executeTask failingAtStep2 ''t1'' initialDb)) ''t1'' = Some FAILED"
    and len: "length rows = 3"
    and s1: "status (rows ! 1) = STEP_FAILED"
    and s0: "\<forall>j<1. status (rows ! j) = STEP_COMPLETED"
    and s2: "\<forall>j. 1 < j \<and> j < length rows \<longrightarrow> status (rows ! j) = STEP_PENDING"
    by (simp_all add: Let_def rows_def threeStepText_length)
  have "map status rows = map status [rows ! 0, rows ! 1, rows ! 2]"
    using list_of_three[OF len] by simp
  also have "\<dots> = [STEP_COMPLETED, STEP_FAILED, STEP_PENDING]"
    using s0 s1 s2[rule_format, of 2] len by simp
  finally have "map status rows = [STEP_COMPLETED, STEP_FAILED, STEP_PENDING]" .
  then show ?thesis using h1 h2 h3 q h5 c by (simp add: rows_def)
qed

text \<open>
  Claim C7, as the code has it.  The task row is read again after each step has finished,
  not before the first one.  Let the handlers of steps \<open>1, \<dots>, k\<close> return with no
  cancellation served around them, and let a cancellation be served just before or
  while step \<open>k + 1\<close> runs.  Step \<open>k + 1\<close> is not interrupted: its row gets an end stamp and
  is \<open>COMPLETED\<close> when its handler returns, \<open>FAILED\<close> when it throws.  No later step is
  started: every later row is still \<open>PENDING\<close> without a start stamp.
\<close>

theorem cancellation_stops_loop_after_current_step:
  assumes "tasks d tid = Some task"
    and "llm w (constructPlanningPrompt task) = Inr planText"
    and "k < length (parsePlanFromLLMResponse planText)"
    and "\<forall>n. 1 \<le> n \<and> n \<le> k \<longrightarrow> stepReturns w n \<and> quietAt w n"
    and "cancelAt w (BeforeStep (k + 1)) \<or> cancelAt w (DuringStep (k + 1))"
  shows "let d' = snd (executeTask w tid d); rows = findManySteps d' tid in
           length rows = length (parsePlanFromLLMResponse planText) \<and>
           (\<forall>j<k. status (rows ! j) = STEP_COMPLETED) \<and>
           completedAt (rows ! k) \<noteq> None \<and>
           (stepReturns w (k + 1) \<longrightarrow> status (rows ! k) = STEP_COMPLETED) \<and>
           (stepThrows w (k + 1) \<longrightarrow> status (rows ! k) = STEP_FAILED) \<and>
           (\<forall>j. k < j \<and> j < length rows \<longrightarrow>
                status (rows ! j) = STEP_PENDING \<and> startedAt (rows ! j) = None)"
proof -
  define N where "N = length (parsePlanFromLLMResponse planText)"
  define row where "row = planRow (nextId d) tid (parsePlanFromLLMResponse planText)"
  have stop: "stepThrows w (k + 1) \<or> cancelAt w (BeforeStep (k + 1)) \<or> cancelAt w (DuringStep (k + 1))"
    using assms(5) by blast
  from executeTask_stops_at[OF assms(1-4) stop, folded N_def row_def]
  obtain res dc where run: "executeTask w tid d = finishTask tid (res, dc)"
    and pc: "planRows dc tid (nextId d) N"
    and c1: "\<And>j. j < k \<Longrightarrow> \<exists>r. steps dc (nextId d + j) = Some r \<and> status r = STEP_COMPLETED \<and>
                                  completedAt r \<noteq> None"
    and c2: "\<exists>r. steps dc (nextId d + k) = Some r \<and> completedAt r \<noteq> None \<and>
                 status r = (case handlerOutcome w (row k) of
                               Inl e \<Rightarrow> STEP_FAILED | Inr v \<Rightarrow> STEP_COMPLETED)"
    and c3: "\<And>j. k < j \<Longrightarrow> j < N \<Longrightarrow> steps dc (nextId d + j) = Some (row j)"
    by blast
  define d' where "d' = snd (executeTask w tid d)"
  note fe = finishTask_effect[of tid res dc, folded run, folded d'_def]
  have st: "steps d' = steps dc" using fe by simp
  have p': "planRows d' tid (nextId d) N" using pc fe by (auto intro: planRows_keysKept)
  note nth = findManySteps_nth[OF p']
  have kN: "k < N" using assms(3) by (simp add: N_def)
  from c2 obtain r where r: "steps dc (nextId d + k) = Some r" "completedAt r \<noteq> None"
    "status r = (case handlerOutcome w (row k) of Inl e \<Rightarrow> STEP_FAILED | Inr v \<Rightarrow> STEP_COMPLETED)"
    by blast
  have rk: "findManySteps d' tid ! k = r" using r(1) kN by (simp add: nth(2) st)
  have "length (findManySteps d' tid) = N" by (rule nth(1))
  moreover have "\<forall>j<k. status (findManySteps d' tid ! j) = STEP_COMPLETED"
  proof (intro allI impI)
    fix j assume j: "j < k"
    from c1[OF j] obtain r where "steps dc (nextId d + j) = Some r" "status r = STEP_COMPLETED"
      by blast
    then show "status (findManySteps d' tid ! j) = STEP_COMPLETED"
      using j kN by (simp add: nth(2) st)
  qed
  moreover have "completedAt (findManySteps d' tid ! k) \<noteq> None"
    using r(2) by (simp add: rk)
  moreover have "stepReturns w (k + 1) \<longrightarrow> status (findManySteps d' tid ! k) = STEP_COMPLETED"
  proof
    assume "stepReturns w (k + 1)"
    with handlerOutcome_returns[of w "row k"] obtain v where "handlerOutcome w (row k) = Inr v"
      by (auto simp: row_def)
    with r(3) show "status (findManySteps d' tid ! k) = STEP_COMPLETED" by (simp add: rk)
  qed
  moreover have "stepThrows w (k + 1) \<longrightarrow> status (findManySteps d' tid ! k) = STEP_FAILED"
  proof
    assume "stepThrows w (k + 1)"
    with handlerOutcome_throws[of w "row k"] obtain e where "handlerOutcome w (row k) = Inl e"
      by (auto simp: row_def)
    with r(3) show "status (findManySteps d' tid ! k) = STEP_FAILED" by (simp add: rk)
  qed
  moreover have "\<forall>j. k < j \<and> j < length (findManySteps d' tid) \<longrightarrow>
                   status (findManySteps d' tid ! j) = STEP_PENDING \<and>
                   startedAt (findManySteps d' tid ! j) = None"
  proof (intro allI impI)
    fix j assume j: "k < j \<and> j < length (findManySteps d' tid)"
    then have jN: "j < N" by (simp add: nth(1))
    from c3[of j] j jN have "steps dc (nextId d + j) = Some (row j)" by simp
    then show "status (findManySteps d' tid ! j) = STEP_PENDING \<and>
               startedAt (findManySteps d' tid ! j) = None"
      using jN by (simp add: nth(2) st row_def)
  qed
  ultimately show ?thesis
    unfolding Let_def d'_def[symmetric] N_def[symmetric] by blast
qed

text \<open>A cancellation served while step 2 of three runs: steps 1 and 2 are \<open>COMPLETED\<close>,
  step 3 stays \<open>PENDING\<close>.\<close>

theorem cancellation_stops_loop_after_current_step_witness:
  "tasks initialDb ''t1'' = Some sampleTask \<and>
   llm cancelledDuringStep2 (constructPlanningPrompt sampleTask) = Inr threeStepText \<and>
   1 < length (parsePlanFromLLMResponse threeStepText) \<and>
   stepReturns cancelledDuringStep2 1 \<and> quietAt cancelledDuringStep2 1 \<and>
   cancelAt cancelledDuringStep2 (DuringStep (1 + 1)) \<and>
   map status (findManySteps (snd (executeTask cancelledDuringStep2 ''t1'' initialDb)) ''t1'')
     = [STEP_COMPLETED, STEP_COMPLETED, STEP_PENDING]"
proof -
  have h1: "tasks initialDb ''t1'' = Some sampleTask" by (rule sample_hypotheses)
  have h2: "llm cancelledDuringStep2 (constructPlanningPrompt sampleTask) = Inr threeStepText"
    by (simp add: cancelledDuringStep2_def sample_hypotheses)
  have h3: "1 < length (parsePlanFromLLMResponse threeStepText)"
    by (simp add: threeStepText_length)
  have q: "stepReturns cancelledDuringStep2 1 \<and> quietAt cancelledDuringStep2 1"
    by (simp add: stepReturns_def quietAt_def cancelledDuringStep2_def returningHandler_def
        duringStep2_def)
  have h4: "\<forall>n. 1 \<le> n \<and> n \<le> 1 \<longrightarrow>
              stepReturns cancelledDuringStep2 n \<and> quietAt cancelledDuringStep2 n"
    using q by (auto simp: le_antisym)
  have c: "cancelAt cancelledDuringStep2 (DuringStep (1 + 1))"
    by (simp add: cancelledDuringStep2_def duringStep2_def)
  then have h5: "cancelAt cancelledDuringStep2 (BeforeStep (1 + 1)) \<or>
                 cancelAt cancelledDuringStep2 (DuringStep (1 + 1))" by simp
  have ret: "stepReturns cancelledDuringStep2 (1 + 1)"
    by (simp add: stepReturns_def cancelledDuringStep2_def returningHandler_def)
  define rows where
    "rows = findManySteps (snd (executeTask cancelledDuringStep2 ''t1'' initialDb)) ''t1''"
  from cancellation_stops_loop_after_current_step[OF h1 h2 h3 h4 h5] ret
  have len: "length rows = 3"
    and s0: "\<forall>j<1. status (rows ! j) = STEP_COMPLETED"
    and s1: "status (rows ! 1) = STEP_COMPLETED"
    and s2: "\<forall>j. 1 < j \<and> j < length rows \<longrightarrow> status (rows ! j) = STEP_PENDING"
    by (simp_all add: Let_def rows_def threeStepText_length)
  have "map status rows = map status [rows ! 0, rows ! 1, rows ! 2]"
    using list_of_three[OF len] by simp
  also have "\<dots> = [STEP_COMPLETED, STEP_COMPLETED, STEP_PENDING]"
    using s0 s1 s2[rule_format, of 2] len by simp
  finally have "map status rows = [STEP_COMPLETED, STEP_COMPLETED, STEP_PENDING]" .
  then show ?thesis using h1 h2 h3 q c by (simp add: rows_def)
qed

text \<open>
  Claim C7 as stated says that the status is read before each step is started and that a
  task already \<open>FAILED\<close> stops the loop without starting that step.  When the cancellation
  is served after the task became \<open>IN_PROGRESS\<close> and before step 1 starts, the task is
  \<open>FAILED\<close> at that moment, the log shows the cancellation first and the start of step 1
  after it, and step 1 is \<open>COMPLETED\<close>.
\<close>

theorem first_step_starts_although_task_is_failed:
  "taskStatusOf (environment cancelledBeforeStep1 (BeforeStep 1) ''t1'' inProgressDb) ''t1''
     = Some FAILED \<and>
   map message (logs (snd (executeTask cancelledBeforeStep1 ''t1'' initialDb))) =
     [''Task status updated to PLANNING'', ''Task execution started'',
      ''Created execution plan with 3 steps'', ''Task status updated to IN_PROGRESS'',
      ''Task was canceled by user'',
      ''Starting execution of step 1: Collect the input'',
      ''Completed step 1: Collect the input'',
      ''Task status updated to RESOLVED'', ''Task execution completed successfully''] \<and>
   stepStatuses (snd (executeTask cancelledBeforeStep1 ''t1'' initialDb)) ''t1''
     = [STEP_COMPLETED, STEP_PENDING, STEP_PENDING]"
  by code_simp

text \<open>
  Claim C1.  A cancellation is served while step 1 of a three-step plan runs.  The log
  task is \<open>FAILED\<close> when the step loop returns; the log shows the cancellation and, after
  the loop has stopped, the executor's update to \<open>RESOLVED\<close>; the task ends \<open>RESOLVED\<close>
  with two steps never run.
\<close>

theorem cancelled_task_ends_resolved:
  "taskStatusOf inProgressDb ''t1'' = Some IN_PROGRESS \<and>
   fst (executeTaskSteps cancelledDuringStep1 ''t1'' inProgressDb) = Inr () \<and>
   taskStatusOf (snd (executeTaskSteps cancelledDuringStep1 ''t1'' inProgressDb)) ''t1''
     = Some FAILED \<and>
   map message (logs (snd (executeTask cancelledDuringStep1 ''t1'' initialDb))) =
     [''Task status updated to PLANNING'', ''Task execution started'',
      ''Created execution plan with 3 steps'', ''Task status updated to IN_PROGRESS'',
      ''Starting execution of step 1: Collect the input'',
      ''Task was canceled by user'',
      ''Completed step 1: Collect the input'',
      ''Task status updated to RESOLVED'', ''Task execution completed successfully''] \<and>
   taskStatusOf (snd (executeTask cancelledDuringStep1 ''t1'' initialDb)) ''t1'' = Some RESOLVED \<and>
   stepStatuses (snd (executeTask cancelledDuringStep1 ''t1'' initialDb)) ''t1''
     = [STEP_COMPLETED, STEP_PENDING, STEP_PENDING]"
  by code_simp

text \<open>
  Claim C10.  When the handler called for a step returns a result, whatever the result
  says, \<open>executeTaskStep\<close> returns normally and the row of the step is \<open>COMPLETED\<close> with an
  end stamp; the store it leaves does not depend on the returned result.  When every
  handler of a plan returns a result and no cancellation is served, every step ends
  \<open>COMPLETED\<close> with an end stamp and the task ends \<open>RESOLVED\<close>.
\<close>

theorem returned_result_completes_step:
  "(handlerOutcome w step = Inr res \<and> steps d0 (stepId step) = Some row \<longrightarrow>
      (\<exists>d' row'. executeTaskStep w step d0 = (Inr (), d') \<and>
                 steps d' (stepId step) = Some row' \<and>
                 status row' = STEP_COMPLETED \<and> completedAt row' \<noteq> None) \<and>
      (\<forall>res'. executeTaskStep (w\<lparr>agentExecuteStep := \<lambda>name s. Inr res'\<rparr>) step d0
                = executeTaskStep w step d0)) \<and>
   (tasks d tid = Some task \<and> llm w (constructPlanningPrompt task) = Inr planText \<and>
    (\<forall>n. 1 \<le> n \<and> n \<le> length (parsePlanFromLLMResponse planText)
          \<longrightarrow> stepReturns w n \<and> quietAt w n) \<longrightarrow>
      (let d' = snd (executeTask w tid d); rows = findManySteps d' tid in
         taskStatusOf d' tid = Some RESOLVED \<and>
         length rows = length (parsePlanFromLLMResponse planText) \<and>
         (\<forall>j<length rows. status (rows ! j) = STEP_COMPLETED \<and> completedAt (rows ! j) \<noteq> None)))"
proof (intro conjI impI)
  assume h: "handlerOutcome w step = Inr res \<and> steps d0 (stepId step) = Some row"
  from executeTaskStep_returns[of w step res d0] h
  show "\<exists>d' row'. executeTaskStep w step d0 = (Inr (), d') \<and>
                 steps d' (stepId step) = Some row' \<and>
                 status row' = STEP_COMPLETED \<and> completedAt row' \<noteq> None"
    by blast
  show "\<forall>res'. executeTaskStep (w\<lparr>agentExecuteStep := \<lambda>name s. Inr res'\<rparr>) step d0
                = executeTaskStep w step d0"
  proof
    fix res'
    obtain a where a: "executorAgent step = Some a" using executorAgent_some by blast
    have "handlerOutcome (w\<lparr>agentExecuteStep := \<lambda>name s. Inr res'\<rparr>) step = Inr res'"
      by (simp add: handlerOutcome_def a)
    with h show "executeTaskStep (w\<lparr>agentExecuteStep := \<lambda>name s. Inr res'\<rparr>) step d0
                 = executeTaskStep w step d0"
      by (simp add: executeTaskStep_def Let_def environment_def)
  qed
next
  assume h: "tasks d tid = Some task \<and> llm w (constructPlanningPrompt task) = Inr planText \<and>
    (\<forall>n. 1 \<le> n \<and> n \<le> length (parsePlanFromLLMResponse planText)
          \<longrightarrow> stepReturns w n \<and> quietAt w n)"
  define N where "N = length (parsePlanFromLLMResponse planText)"
  from h have h1: "tasks d tid = Some task"
    and h2: "llm w (constructPlanningPrompt task) = Inr planText"
    and h3: "\<forall>n. 1 \<le> n \<and> n \<le> length (parsePlanFromLLMResponse planText)
                 \<longrightarrow> stepReturns w n \<and> quietAt w n"
    by simp_all
  from executeTask_prefix[OF h1 h2 order_refl h3, folded N_def]
  obtain dk where run: "executeTask w tid d = finishTask tid (stepLoop w tid (map
        (planRow (nextId d) tid (parsePlanFromLLMResponse planText)) [N..<N]) dk)"
    and pk: "planRows dk tid (nextId d) N"
    and stk: "taskStatusOf dk tid = Some IN_PROGRESS"
    and ck: "\<And>j. j < N \<Longrightarrow> \<exists>r. steps dk (nextId d + j) = Some r \<and> status r = STEP_COMPLETED \<and>
                                  completedAt r \<noteq> None"
    by blast
  have run': "executeTask w tid d = finishTask tid (Inr (), dk)"
    using run by simp
  define d' where "d' = snd (executeTask w tid d)"
  note fe = finishTask_effect[of tid "Inr ()" dk, folded run', folded d'_def]
  have st: "steps d' = steps dk" using fe by simp
  have p': "planRows d' tid (nextId d) N" using pk fe by (auto intro: planRows_keysKept)
  note nth = findManySteps_nth[OF p']
  have tk: "tasks dk tid \<noteq> None" using stk by (auto simp: taskStatusOf_def)
  have "taskStatusOf d' tid = Some RESOLVED" using fe tk by simp
  moreover have "length (findManySteps d' tid) = N" by (rule nth(1))
  moreover have "\<forall>j<length (findManySteps d' tid).
                   status (findManySteps d' tid ! j) = STEP_COMPLETED \<and>
                   completedAt (findManySteps d' tid ! j) \<noteq> None"
  proof (intro allI impI)
    fix j assume "j < length (findManySteps d' tid)"
    then have j: "j < N" by (simp add: nth(1))
    from ck[OF j] obtain r where "steps dk (nextId d + j) = Some r" "status r = STEP_COMPLETED"
      "completedAt r \<noteq> None" by blast
    then show "status (findManySteps d' tid ! j) = STEP_COMPLETED \<and>
               completedAt (findManySteps d' tid ! j) \<noteq> None"
      using j by (simp add: nth(2) st)
  qed
  ultimately show "let d' = snd (executeTask w tid d); rows = findManySteps d' tid in
         taskStatusOf d' tid = Some RESOLVED \<and>
         length rows = length (parsePlanFromLLMResponse planText) \<and>
         (\<forall>j<length rows. status (rows ! j) = STEP_COMPLETED \<and> completedAt (rows ! j) \<noteq> None)"
    unfolding Let_def d'_def[symmetric] N_def[symmetric] by blast
qed

text \<open>Handlers that report a failure in the returned result (\<open>success = False\<close>): the three
  steps are \<open>COMPLETED\<close> and the task is \<open>RESOLVED\<close>.\<close>

theorem returned_result_completes_step_witness:
  "handlerOutcome reportingFailures (planRow 0 ''t1'' (parsePlanFromLLMResponse threeStepText) 0)
     = Inr failedResult \<and>
   \<not> success failedResult \<and>
   steps inProgressDb (stepId (planRow 0 ''t1'' (parsePlanFromLLMResponse threeStepText) 0))
     = Some (planRow 0 ''t1'' (parsePlanFromLLMResponse threeStepText) 0) \<and>
   fst (executeTaskStep reportingFailures
          (planRow 0 ''t1'' (parsePlanFromLLMResponse threeStepText) 0) inProgressDb) = Inr () \<and>
   tasks initialDb ''t1'' = Some sampleTask \<and>
   llm reportingFailures (constructPlanningPrompt sampleTask) = Inr threeStepText \<and>
   stepReturns reportingFailures 1 \<and> quietAt reportingFailures 1 \<and>
   stepReturns reportingFailures 2 \<and> quietAt reportingFailures 2 \<and>
   stepReturns reportingFailures 3 \<and> quietAt reportingFailures 3 \<and>
   taskStatusOf (snd (executeTask reportingFailures ''t1'' initialDb)) ''t1'' = Some RESOLVED \<and>
   map status (findManySteps (snd (executeTask reportingFailures ''t1'' initialDb)) ''t1'')
     = [STEP_COMPLETED, STEP_COMPLETED, STEP_COMPLETED]"
proof -
  define s where "s = planRow 0 ''t1'' (parsePlanFromLLMResponse threeStepText) 0"
  have g1: "handlerOutcome reportingFailures s = Inr failedResult"
    using executorAgent_some[of s]
    by (auto simp: handlerOutcome_def reportingFailures_def reportingHandler_def)
  have g2: "\<not> success failedResult" by (simp add: failedResult_def)
  have g3: "steps inProgressDb (stepId s) = Some s"
    unfolding s_def by code_simp
  have h1: "tasks initialDb ''t1'' = Some sampleTask" by (rule sample_hypotheses)
  have h2: "llm reportingFailures (constructPlanningPrompt sampleTask) = Inr threeStepText"
    by (simp add: reportingFailures_def sample_hypotheses)
  have h3: "\<forall>n. 1 \<le> n \<and> n \<le> length (parsePlanFromLLMResponse threeStepText)
              \<longrightarrow> stepReturns reportingFailures n \<and> quietAt reportingFailures n"
    by (simp add: stepReturns_def quietAt_def reportingFailures_def reportingHandler_def never_def)
  have q: "stepReturns reportingFailures 1 \<and> quietAt reportingFailures 1 \<and>
           stepReturns reportingFailures 2 \<and> quietAt reportingFailures 2 \<and>
           stepReturns reportingFailures 3 \<and> quietAt reportingFailures 3"
    using h3 by (simp add: threeStepText_length)
  define rows where
    "rows = findManySteps (snd (executeTask reportingFailures ''t1'' initialDb)) ''t1''"
  note inst = returned_result_completes_step
      [of reportingFailures s failedResult inProgressDb s initialDb "''t1''" sampleTask
          threeStepText]
  from inst g1 g3 have g4: "fst (executeTaskStep reportingFailures s inProgressDb) = Inr ()"
    by auto
  from inst h1 h2 h3
  have c: "taskStatusOf (snd (executeTask reportingFailures ''t1'' initialDb)) ''t1'' = Some RESOLVED"
    and len: "length rows = 3"
    and all: "\<forall>j<length rows. status (rows ! j) = STEP_COMPLETED"
    by (simp_all add: Let_def rows_def threeStepText_length)
  have "map status rows = map status [rows ! 0, rows ! 1, rows ! 2]"
    using list_of_three[OF len] by simp
  also have "\<dots> = [STEP_COMPLETED, STEP_COMPLETED, STEP_COMPLETED]"
    using all len by simp
  finally have "map status rows = [STEP_COMPLETED, STEP_COMPLETED, STEP_COMPLETED]" .
  then show ?thesis
    using g1 g2 g3 g4 h1 h2 q c by (simp add: rows_def s_def)
qed

section \<open>Properties of the handlers\<close>

subsection \<open>Decomposition\<close>

lemma codeAnalyzeStepForActions_not_empty: "codeAnalyzeStepForActions now step \<noteq> []"
proof -
  have "length (codeAnalyzeStepForActions now step) \<noteq> 0"
    unfolding codeAnalyzeStepForActions_def Let_def length_resolveActionDependencies
    by (simp add: addDefault_def)
  then show ?thesis by simp
qed

lemma webAnalyzeStepToActions_not_empty: "webAnalyzeStepToActions step \<noteq> []"
  by (simp add: webAnalyzeStepToActions_def Let_def split: option.splits)

lemma generalAnalyzeStepForActions_request_failure:
  "getLLMResponse (analysisPrompt (stepDescription step)) analysisOptions = Inl e \<Longrightarrow>
   generalAnalyzeStepForActions getLLMResponse JSON_parse step = [requestFailureDefault step]"
  by (simp add: generalAnalyzeStepForActions_def)

lemma generalAnalyzeStepForActions_parsed_array:
  "getLLMResponse (analysisPrompt (stepDescription step)) analysisOptions = Inr response \<Longrightarrow>
   JSON_parse response = Some (JArr xs) \<Longrightarrow>
   generalAnalyzeStepForActions getLLMResponse JSON_parse step = xs"
  by (simp add: generalAnalyzeStepForActions_def)

text \<open>
  Claim C9.  The code handler and the web handler never produce an empty action list
  (the two lemmas above).  The general-purpose handler returns whatever array the
  collaborator's response parses to: for the response \<^verbatim>\<open>[]\<close> it returns the empty
  list and emits no default action.
\<close>

theorem general_handler_returns_empty_action_list:
  "generalAnalyzeStepForActions emptyArrayCollaborator parseEmptyArray otherStep = []"
  by (simp add: generalAnalyzeStepForActions_def emptyArrayCollaborator_def parseEmptyArray_def)

subsection \<open>The action loop\<close>

lemma callTool_quiet [simp]:
  "toolUsages (snd (callTool env c st)) = toolUsages st"
  "auditLogs (snd (callTool env c st)) = auditLogs st"
  "time (snd (callTool env c st)) = time st"
  by (simp_all add: callTool_def)

lemma generateCode_quiet:
  "toolUsages (snd (generateCode env p l st)) = toolUsages st \<and>
   auditLogs (snd (generateCode env p l st)) = auditLogs st \<and>
   time (snd (generateCode env p l st)) = time st"
  by (simp add: generateCode_def callTool_def split: sum.splits)

lemma executeCode_quiet:
  "toolUsages (snd (executeCode env c l a st)) = toolUsages st \<and>
   auditLogs (snd (executeCode env c l a st)) = auditLogs st \<and>
   time (snd (executeCode env c l a st)) = time st"
  by (simp add: executeCode_def callTool_def Let_def split: sum.splits)

lemma saveCode_quiet:
  "toolUsages (snd (saveCode env c p l st)) = toolUsages st \<and>
   auditLogs (snd (saveCode env c p l st)) = auditLogs st \<and>
   time (snd (saveCode env c p l st)) = time st"
  by (simp add: saveCode_def callTool_def split: sum.splits)

lemma loadCode_quiet:
  "toolUsages (snd (loadCode env p st)) = toolUsages st \<and>
   auditLogs (snd (loadCode env p st)) = auditLogs st \<and>
   time (snd (loadCode env p st)) = time st"
  by (simp add: loadCode_def callTool_def Let_def split: sum.splits jsval.splits)

lemma optimizeCode_quiet:
  "toolUsages (snd (optimizeCode env c l cr st)) = toolUsages st \<and>
   auditLogs (snd (optimizeCode env c l cr st)) = auditLogs st \<and>
   time (snd (optimizeCode env c l cr st)) = time st"
  by (simp add: optimizeCode_def callTool_def Let_def split: sum.splits jsval.splits)

lemma explainCode_quiet:
  "toolUsages (snd (explainCode env c l st)) = toolUsages st \<and>
   auditLogs (snd (explainCode env c l st)) = auditLogs st \<and>
   time (snd (explainCode env c l st)) = time st"
  by (simp add: explainCode_def callTool_def split: sum.splits)

lemma quietDispatch_codeRunner: "quietDispatch codeRunner"
  unfolding quietDispatch_def codeRunner_def
  by (simp add: codeDispatch_def Let_def generateCode_quiet executeCode_quiet saveCode_quiet
      loadCode_quiet optimizeCode_quiet explainCode_quiet)

lemma quietDispatch_webRunner: "quietDispatch webRunner"
  unfolding quietDispatch_def webRunner_def
  by (simp add: webDispatch_def Let_def)

text \<open>One pass of the loop body: it adds exactly one \<^verbatim>\<open>ToolUsage\<close> row, closed, for
  the action; a returned value joins the results, a thrown error leaves a warning.\<close>

lemma runAction_effect:
  assumes q: "quietDispatch r"
    and run: "runAction r env step a (results, st) = (results', st')"
  shows "\<exists>u. toolUsages st' = toolUsages st @ [u] \<and>
           command u = stringify env (JObj a) \<and> toolName u = runnerTool r \<and>
           endedAt u \<noteq> None \<and>
           (case fst (dispatch r env a (opened r env step a st)) of
              Inr v \<Rightarrow> usageSuccess u = Some True \<and> results' = results @ [v] \<and>
                       warnings st' = warnings st
            | Inl e \<Rightarrow> usageSuccess u = Some False \<and> usageError u = Some (errorMessage e) \<and>
                       usageOutput u = None \<and> results' = results \<and>
                       warnings st' = warnings st + 1)"
proof -
  define st1 where "st1 = agentLog (runnerName r) ''INFO'' step
                            (startLabel r @ jsToString (getProp a ''type'')) None st"
  define row where "row = \<lparr>usageTaskId = taskId step, toolName = runnerTool r,
                           command = stringify env (JObj a), usageStartedAt = time st1,
                           endedAt = None, usageSuccess = None, usageOutput = None,
                           usageError = None\<rparr>"
  define st2 where "st2 = st1\<lparr>toolUsages := toolUsages st1 @ [row], time := Suc (time st1)\<rparr>"
  have u1: "toolUsages st1 = toolUsages st" and w1: "warnings st1 = warnings st"
    by (simp_all add: st1_def agentLog_def warnings_def)
  have start: "recordToolUsageStart (taskId step) (runnerTool r) (stringify env (JObj a)) st1
               = (length (toolUsages st), st2)"
    by (simp add: recordToolUsageStart_def st2_def row_def u1)
  have op: "opened r env step a st = st2"
    by (simp add: opened_def st1_def[symmetric] start)
  obtain out st3 where d: "dispatch r env a st2 = (out, st3)"
    by (cases "dispatch r env a st2")
  from q have u3: "toolUsages st3 = toolUsages st @ [row]"
    and l3: "auditLogs st3 = auditLogs st2"
    using d by (auto simp: quietDispatch_def st2_def u1 dest!: spec[of _ env] spec[of _ a] spec[of _ st2])
  have w3: "warnings st3 = warnings st"
    using l3 w1 by (simp add: warnings_def st2_def)
  show ?thesis
  proof (cases out)
    case (Inr result)
    define u where "u = row\<lparr>endedAt := Some (time st3), usageSuccess := Some True,
                           usageOutput := (if truthy result then Some (stringify env result)
                                           else None),
                           usageError := None\<rparr>"
    have "runAction r env step a (results, st)
          = (results @ [result],
             recordToolUsageEnd env (length (toolUsages st)) True result None st3)"
      by (simp add: runAction_def Let_def st1_def[symmetric] start d Inr)
    with run have r': "results' = results @ [result]"
      and s': "st' = recordToolUsageEnd env (length (toolUsages st)) True result None st3"
      by simp_all
    have "toolUsages st' = toolUsages st @ [u]"
      by (simp add: s' recordToolUsageEnd_def u3 u_def)
    moreover have "warnings st' = warnings st"
      using w3 by (simp add: s' recordToolUsageEnd_def warnings_def u3)
    ultimately show ?thesis
      by (intro exI[of _ u]) (simp add: r' u_def row_def op d Inr)
  next
    case (Inl e)
    define u where "u = row\<lparr>endedAt := Some (time st3), usageSuccess := Some False,
                           usageOutput := None, usageError := Some (errorMessage e)\<rparr>"
    define st4 where "st4 = recordToolUsageEnd env (length (toolUsages st)) False JNull
                              (Some (errorMessage e)) st3"
    have "runAction r env step a (results, st)
          = (results,
             agentLog (runnerName r) ''WARNING'' step
               (failLabel r @ jsToString (getProp a ''type''))
               (Some (stringify env (JObj [(''error'', JStr (errorMessage e))]))) st4)"
      by (simp add: runAction_def Let_def st1_def[symmetric] start d Inl st4_def)
    with run have r': "results' = results"
      and s': "st' = agentLog (runnerName r) ''WARNING'' step
                       (failLabel r @ jsToString (getProp a ''type''))
                       (Some (stringify env (JObj [(''error'', JStr (errorMessage e))]))) st4"
      by simp_all
    have u4: "toolUsages st4 = toolUsages st @ [u]"
      by (simp add: st4_def recordToolUsageEnd_def u3 u_def)
    have w4: "warnings st4 = warnings st"
      using w3 by (simp add: st4_def recordToolUsageEnd_def warnings_def u3)
    have "toolUsages st' = toolUsages st @ [u]"
      by (simp add: s' agentLog_def u4)
    moreover have "warnings st' = warnings st + 1"
      using w4 by (simp add: s' agentLog_def warnings_def)
    ultimately show ?thesis
      by (intro exI[of _ u]) (simp add: r' u_def row_def op d Inl)
  qed
qed

lemma runActions_append:
  "runActions r env step (xs @ ys) acc = runActions r env step ys (runActions r env step xs acc)"
  by (induction xs arbitrary: acc) simp_all

lemma runActions_snoc:
  "runActions r env step (xs @ [a]) acc = runAction r env step a (runActions r env step xs acc)"
  by (simp add: runActions_append)

text \<open>The whole loop, by induction on the actions taken from the front of the list.\<close>

lemma runActions_effect:
  assumes q: "quietDispatch r"
  shows "runActions r env step actions ([], st) = (results, st') \<Longrightarrow>
         \<exists>us. toolUsages st' = toolUsages st @ us \<and> length us = length actions \<and>
           (\<forall>i<length actions.
               command (us ! i) = stringify env (JObj (actions ! i)) \<and>
               toolName (us ! i) = runnerTool r \<and>
               endedAt (us ! i) \<noteq> None \<and>
               (case fst (dispatch r env (actions ! i)
                            (opened r env step (actions ! i)
                               (snd (runActions r env step (take i actions) ([], st))))) of
                  Inr v \<Rightarrow> usageSuccess (us ! i) = Some True
                | Inl e \<Rightarrow> usageSuccess (us ! i) = Some False \<and>
                           usageError (us ! i) = Some (errorMessage e) \<and>
                           usageOutput (us ! i) = None)) \<and>
           length results = length (filter (\<lambda>u. usageSuccess u = Some True) us) \<and>
           warnings st' = warnings st
             + length (filter (\<lambda>u. usageSuccess u = Some False) us)"
proof (induction actions arbitrary: results st' rule: rev_induct)
  case Nil
  then show ?case by simp
next
  case (snoc a actions)
  obtain results1 st1 where before: "runActions r env step actions ([], st) = (results1, st1)"
    by (cases "runActions r env step actions ([], st)")
  from snoc.IH[OF before]
  obtain us where us: "toolUsages st1 = toolUsages st @ us" "length us = length actions"
    "\<forall>i<length actions.
        command (us ! i) = stringify env (JObj (actions ! i)) \<and>
        toolName (us ! i) = runnerTool r \<and>
        endedAt (us ! i) \<noteq> None \<and>
        (case fst (dispatch r env (actions ! i)
                     (opened r env step (actions ! i)
                        (snd (runActions r env step (take i actions) ([], st))))) of
           Inr v \<Rightarrow> usageSuccess (us ! i) = Some True
         | Inl e \<Rightarrow> usageSuccess (us ! i) = Some False \<and>
                    usageError (us ! i) = Some (errorMessage e) \<and>
                    usageOutput (us ! i) = None)"
    "length results1 = length (filter (\<lambda>u. usageSuccess u = Some True) us)"
    "warnings st1 = warnings st + length (filter (\<lambda>u. usageSuccess u = Some False) us)"
    by blast
  from snoc.prems before have one: "runAction r env step a (results1, st1) = (results, st')"
    by (simp add: runActions_snoc)
  from runAction_effect[OF q one]
  obtain u where u: "toolUsages st' = toolUsages st1 @ [u]"
    "command u = stringify env (JObj a)" "toolName u = runnerTool r" "endedAt u \<noteq> None"
    "case fst (dispatch r env a (opened r env step a st1)) of
       Inr v \<Rightarrow> usageSuccess u = Some True \<and> results = results1 @ [v] \<and>
                warnings st' = warnings st1
     | Inl e \<Rightarrow> usageSuccess u = Some False \<and> usageError u = Some (errorMessage e) \<and>
                usageOutput u = None \<and> results = results1 \<and>
                warnings st' = warnings st1 + 1"
    by blast
  have st1: "snd (runActions r env step actions ([], st)) = st1"
    by (simp add: before)
  have rows: "command ((us @ [u]) ! i) = stringify env (JObj ((actions @ [a]) ! i)) \<and>
              toolName ((us @ [u]) ! i) = runnerTool r \<and>
              endedAt ((us @ [u]) ! i) \<noteq> None \<and>
              (case fst (dispatch r env ((actions @ [a]) ! i)
                           (opened r env step ((actions @ [a]) ! i)
                              (snd (runActions r env step (take i (actions @ [a])) ([], st))))) of
                 Inr v \<Rightarrow> usageSuccess ((us @ [u]) ! i) = Some True
               | Inl e \<Rightarrow> usageSuccess ((us @ [u]) ! i) = Some False \<and>
                          usageError ((us @ [u]) ! i) = Some (errorMessage e) \<and>
                          usageOutput ((us @ [u]) ! i) = None)"
    if i: "i < length (actions @ [a])" for i
  proof (cases "i < length actions")
    case True
    with us(2) have e: "(us @ [u]) ! i = us ! i" "(actions @ [a]) ! i = actions ! i"
      "take i (actions @ [a]) = take i actions"
      by (simp_all add: nth_append)
    from us(3) True show ?thesis unfolding e by blast
  next
    case False
    with i have "i = length actions" by simp
    with us(2) have e: "(us @ [u]) ! i = u" "(actions @ [a]) ! i = a"
      "take i (actions @ [a]) = actions"
      by (simp_all add: nth_append)
    from u(2-5) show ?thesis unfolding e st1
      by (cases "fst (dispatch r env a (opened r env step a st1))") simp_all
  qed
  show ?case
  proof (intro exI[of _ "us @ [u]"] conjI allI impI)
    show "toolUsages st' = toolUsages st @ us @ [u]" using u(1) us(1) by simp
    show "length (us @ [u]) = length (actions @ [a])" using us(2) by simp
    show "length results = length (filter (\<lambda>u. usageSuccess u = Some True) (us @ [u]))"
      using u(5) us(4)
      by (cases "fst (dispatch r env a (opened r env step a st1))") simp_all
    show "warnings st' = warnings st
            + length (filter (\<lambda>u. usageSuccess u = Some False) (us @ [u]))"
      using u(5) us(5)
      by (cases "fst (dispatch r env a (opened r env step a st1))") simp_all
  qed (use rows in blast)+
qed

text \<open>
  Claim C6.  The action loop of the code handler and of the web handler, run on any action
  list in any environment: every action of the list gets its own \<^verbatim>\<open>ToolUsage\<close> row,
  opened with the serialised action and closed, whatever happened to the actions before
  it.  The row of an action whose \<^verbatim>\<open>switch\<close> throws is closed as failed, with the
  message of the error and no output, and one warning is logged for it; the row of an
  action whose \<^verbatim>\<open>switch\<close> returns is closed as succeeded.  The result list holds one
  entry per succeeded action and none for a failed one.  The \<^verbatim>\<open>switch\<close> of action
  \<open>i\<close> runs in the store left by the actions before it.
\<close>

theorem action_failure_does_not_abort_siblings:
  assumes handler: "r = codeRunner \<or> r = webRunner"
    and run: "runActions r env step actions ([], st) = (results, st')"
  shows "\<exists>us. toolUsages st' = toolUsages st @ us \<and> length us = length actions \<and>
           (\<forall>i<length actions.
               command (us ! i) = stringify env (JObj (actions ! i)) \<and>
               toolName (us ! i) = runnerTool r \<and>
               endedAt (us ! i) \<noteq> None \<and>
               (case fst (dispatch r env (actions ! i)
                            (opened r env step (actions ! i)
                               (snd (runActions r env step (take i actions) ([], st))))) of
                  Inr v \<Rightarrow> usageSuccess (us ! i) = Some True
                | Inl e \<Rightarrow> usageSuccess (us ! i) = Some False \<and>
                           usageError (us ! i) = Some (errorMessage e) \<and>
                           usageOutput (us ! i) = None)) \<and>
           length results = length (filter (\<lambda>u. usageSuccess u = Some True) us) \<and>
           warnings st' = warnings st
             + length (filter (\<lambda>u. usageSuccess u = Some False) us)"
proof -
  from handler have "quietDispatch r"
    using quietDispatch_codeRunner quietDispatch_webRunner by blast
  from runActions_effect[OF this run] show ?thesis .
qed

lemma list_of_two: "length xs = 2 \<Longrightarrow> xs = [xs ! 0, xs ! 1]"
  by (cases xs; cases "tl xs"; cases "tl (tl xs)") auto

text \<open>The code generator is unavailable: the first action of the step fails, the second
  one is attempted all the same and succeeds.\<close>

theorem action_failure_does_not_abort_siblings_witness:
  "length (codeAnalyzeStepForActions 0 scriptStep) = 2 \<and>
   map usageSuccess
     (toolUsages (snd (runActions codeRunner generatorDownTools scriptStep
                         (codeAnalyzeStepForActions 0 scriptStep) ([], emptyStore))))
     = [Some False, Some True] \<and>
   length (fst (runActions codeRunner generatorDownTools scriptStep
                  (codeAnalyzeStepForActions 0 scriptStep) ([], emptyStore))) = 1 \<and>
   warnings (snd (runActions codeRunner generatorDownTools scriptStep
                    (codeAnalyzeStepForActions 0 scriptStep) ([], emptyStore))) = 1"
proof -
  define acts where "acts = codeAnalyzeStepForActions 0 scriptStep"
  define out where
    "out = runActions codeRunner generatorDownTools scriptStep acts ([], emptyStore)"
  have len: "length acts = 2"
    unfolding acts_def by code_simp
  have d0: "fst (dispatch codeRunner generatorDownTools (acts ! 0)
                   (opened codeRunner generatorDownTools scriptStep (acts ! 0)
                      (snd (runActions codeRunner generatorDownTools scriptStep
                              (take 0 acts) ([], emptyStore)))))
            = Inl (Error ''Failed to generate code: unavailable'')"
    unfolding acts_def by code_simp
  have "\<not> isl (fst (dispatch codeRunner generatorDownTools (acts ! 1)
                      (opened codeRunner generatorDownTools scriptStep (acts ! 1)
                         (snd (runActions codeRunner generatorDownTools scriptStep
                                 (take 1 acts) ([], emptyStore))))))"
    unfolding acts_def by code_simp
  then obtain v where
    d1: "fst (dispatch codeRunner generatorDownTools (acts ! 1)
                (opened codeRunner generatorDownTools scriptStep (acts ! 1)
                   (snd (runActions codeRunner generatorDownTools scriptStep
                           (take 1 acts) ([], emptyStore))))) = Inr v"
    by (cases "fst (dispatch codeRunner generatorDownTools (acts ! 1)
                      (opened codeRunner generatorDownTools scriptStep (acts ! 1)
                         (snd (runActions codeRunner generatorDownTools scriptStep
                                 (take 1 acts) ([], emptyStore)))))") auto
  have w0: "warnings emptyStore = 0" and u0: "toolUsages emptyStore = []"
    by (simp_all add: warnings_def emptyStore_def)
  have run: "runActions codeRunner generatorDownTools scriptStep acts ([], emptyStore)
             = (fst out, snd out)"
    by (simp add: out_def)
  from action_failure_does_not_abort_siblings
         [of codeRunner generatorDownTools scriptStep acts emptyStore "fst out" "snd out",
          OF _ run]
  obtain us where us: "toolUsages (snd out) = toolUsages emptyStore @ us"
    "length us = length acts"
    "\<forall>i<length acts.
        command (us ! i) = stringify generatorDownTools (JObj (acts ! i)) \<and>
        toolName (us ! i) = runnerTool codeRunner \<and>
        endedAt (us ! i) \<noteq> None \<and>
        (case fst (dispatch codeRunner generatorDownTools (acts ! i)
                     (opened codeRunner generatorDownTools scriptStep (acts ! i)
                        (snd (runActions codeRunner generatorDownTools scriptStep
                                (take i acts) ([], emptyStore))))) of
           Inr v \<Rightarrow> usageSuccess (us ! i) = Some True
         | Inl e \<Rightarrow> usageSuccess (us ! i) = Some False \<and>
                    usageError (us ! i) = Some (errorMessage e) \<and>
                    usageOutput (us ! i) = None)"
    "length (fst out) = length (filter (\<lambda>u. usageSuccess u = Some True) us)"
    "warnings (snd out) = warnings emptyStore
       + length (filter (\<lambda>u. usageSuccess u = Some False) us)"
    by blast
  from len have i0: "0 < length acts" and i1: "1 < length acts" by simp_all
  from us(3)[rule_format, OF i0]
  have "case fst (dispatch codeRunner generatorDownTools (acts ! 0)
                     (opened codeRunner generatorDownTools scriptStep (acts ! 0)
                        (snd (runActions codeRunner generatorDownTools scriptStep
                                (take 0 acts) ([], emptyStore))))) of
           Inr v \<Rightarrow> usageSuccess (us ! 0) = Some True
         | Inl e \<Rightarrow> usageSuccess (us ! 0) = Some False \<and>
                    usageError (us ! 0) = Some (errorMessage e) \<and>
                    usageOutput (us ! 0) = None"
    by blast
  then have s0: "usageSuccess (us ! 0) = Some False"
    unfolding d0 by simp
  from us(3)[rule_format, OF i1]
  have "case fst (dispatch codeRunner generatorDownTools (acts ! 1)
                     (opened codeRunner generatorDownTools scriptStep (acts ! 1)
                        (snd (runActions codeRunner generatorDownTools scriptStep
                                (take 1 acts) ([], emptyStore))))) of
           Inr v \<Rightarrow> usageSuccess (us ! 1) = Some True
         | Inl e \<Rightarrow> usageSuccess (us ! 1) = Some False \<and>
                    usageError (us ! 1) = Some (errorMessage e) \<and>
                    usageOutput (us ! 1) = None"
    by blast
  then have s1: "usageSuccess (us ! 1) = Some True"
    unfolding d1 by simp
  from us(2) len have two: "us = [us ! 0, us ! 1]"
    using list_of_two[of us] by simp
  have m: "map usageSuccess us = [Some False, Some True]"
    by (subst two) (simp add: s0 s1[unfolded One_nat_def])
  have f1: "length (filter (\<lambda>u. usageSuccess u = Some True) us) = 1"
    by (subst two) (simp add: s0 s1[unfolded One_nat_def])
  have f2: "length (filter (\<lambda>u. usageSuccess u = Some False) us) = 1"
    by (subst two) (simp add: s0 s1[unfolded One_nat_def])
  show ?thesis
    using len m us(1,4,5) f1 f2 w0 u0
    unfolding acts_def[symmetric] out_def[symmetric] by simp
qed

text \<open>
  Claim C4.  A step of the code handler, ``Write and run a python script'', in an
  environment where every tool works.  The handler plans two actions, the second with
  the parameter \<^verbatim>\<open>code\<close> a reference to the property \<^verbatim>\<open>code\<close> of the result of
  the first.  The loop hands that parameter to \<^verbatim>\<open>executeCode\<close> as it stands: the code
  execution tool is called with the reference object in the place of the program text,
  although the first action has returned the text, and the step reports success.
\<close>

lemma scriptStep_actions:
  "codeAnalyzeStepForActions 0 scriptStep =
     [[(''type'', JStr ''generate_code''),
       (''problem'', JStr ''Write and run a python script''),
       (''language'', JStr ''python'')],
      [(''type'', JStr ''execute_code''),
       (''code'', Reference 0 (Some ''code'')),
       (''language'', JStr ''python''), (''args'', JArr [])]]"
  by code_simp

lemmas scripted_run =
  codeExecuteStep_def codeStepBody_def Let_def callTool_def agentLog_def
  scriptedTools_def scriptedRespond_def emptyStore_def scriptStep_actions runAction_def
  recordToolUsageStart_def recordToolUsageEnd_def codeRunner_def codeDispatch_def
  generateCode_def executeCode_def getProp_def readProp_def Reference_def

theorem execute_tool_receives_raw_reference:
  "map (\<lambda>a. getProp a ''code'') (codeAnalyzeStepForActions 0 scriptStep)
     = [JUndefined, Reference 0 (Some ''code'')] \<and>
   toolCalls (snd (codeExecuteStep scriptedTools scriptStep emptyStore))
     = [Call ''code.initialize'' [], Call ''filesystem.initialize'' [],
        Call ''ai.generateCode'' [JStr ''Write and run a python script'', JStr ''python''],
        Call ''code.execute'' [Reference 0 (Some ''code''), JStr ''python'',
                               JObj [(''args'', JArr [])]],
        Call ''code.cleanup'' [], Call ''filesystem.cleanup'' []] \<and>
   map usageSuccess (toolUsages (snd (codeExecuteStep scriptedTools scriptStep emptyStore)))
     = [Some True, Some True] \<and>
   success (fst (codeExecuteStep scriptedTools scriptStep emptyStore)) \<and>
   resultError (fst (codeExecuteStep scriptedTools scriptStep emptyStore)) = None"
proof (intro conjI)
  show "map (\<lambda>a. getProp a ''code'') (codeAnalyzeStepForActions 0 scriptStep)
          = [JUndefined, Reference 0 (Some ''code'')]"
    by (simp add: scriptStep_actions getProp_def)
  show "toolCalls (snd (codeExecuteStep scriptedTools scriptStep emptyStore))
     = [Call ''code.initialize'' [], Call ''filesystem.initialize'' [],
        Call ''ai.generateCode'' [JStr ''Write and run a python script'', JStr ''python''],
        Call ''code.execute'' [Reference 0 (Some ''code''), JStr ''python'',
                               JObj [(''args'', JArr [])]],
        Call ''code.cleanup'' [], Call ''filesystem.cleanup'' []]"
    by (simp add: scripted_run)
  show "map usageSuccess
          (toolUsages (snd (codeExecuteStep scriptedTools scriptStep emptyStore)))
          = [Some True, Some True]"
    by (simp add: scripted_run)
  show "success (fst (codeExecuteStep scriptedTools scriptStep emptyStore))"
    by (simp add: scripted_run)
  show "resultError (fst (codeExecuteStep scriptedTools scriptStep emptyStore)) = None"
    by (simp add: scripted_run)
qed

section \<open>The dependency resolver on the lists it receives\<close>





























end
